theory Spec2Isabelle
  imports Main "HOL-Library.Word" "HOL-Library.Signed_Division"
begin

unbundle bit_operations_syntax

section \<open>Machine types and constants\<close>

type_synonym u8 = "8 word"
type_synonym u16 = "16 word"
type_synonym u32 = "32 word"
type_synonym s32 = "32 word"
type_synonym u64 = "64 word"
type_synonym s64 = "64 word"

text \<open>
  The global \<open>g_vram\<close> is a store from word addresses to 16-bit words. The source indexes it
  with the \<open>u32\<close> expression \<open>VRAM_WIDTH * y + x\<close>; the words of VRAM proper are the addresses
  below \<open>1024 * 512\<close>.
\<close>

type_synonym vram = "u32 \<Rightarrow> u16"

text \<open>
  Modelled from the spec: \<open>VRAM_WIDTH\<close>, \<open>VRAM_HEIGHT\<close>, \<open>MAX_PRIMITIVE_WIDTH\<close> and
  \<open>MAX_PRIMITIVE_HEIGHT\<close> are declared in a header that is not among the sources; the values
  are the bit-exact constants of the specification.
\<close>

definition VRAM_WIDTH :: u32 where
  "VRAM_WIDTH = 1024"

definition VRAM_HEIGHT :: u32 where
  "VRAM_HEIGHT = 512"

definition MAX_PRIMITIVE_WIDTH :: u32 where
  "MAX_PRIMITIVE_WIDTH = 1024"

definition MAX_PRIMITIVE_HEIGHT :: u32 where
  "MAX_PRIMITIVE_HEIGHT = 512"

definition COORD_FBS :: nat where
  "COORD_FBS = 12"

definition COORD_POST_PADDING :: nat where
  "COORD_POST_PADDING = 12"

definition Line_XY_FractBits :: nat where
  "Line_XY_FractBits = 32"

definition Line_RGB_FractBits :: nat where
  "Line_RGB_FractBits = 12"

text \<open>
  The dither table \<open>g_dither_lut[4][4][512]\<close> is filled elsewhere; it is a parameter of
  every operation that reads it.
\<close>

type_synonym DitherLUT = "nat \<Rightarrow> nat \<Rightarrow> nat \<Rightarrow> u8"

section \<open>Commands\<close>

datatype GPUTextureMode = Palette4Bit | Palette8Bit | Direct16Bit

text \<open>
  The blend switch of the pixel shader has a \<open>default\<close> branch besides the four modes;
  \<open>Disabled\<close> stands for every value that takes it.
\<close>

datatype GPUTransparencyMode =
    HalfBackgroundPlusHalfForeground
  | BackgroundPlusForeground
  | BackgroundMinusForeground
  | BackgroundPlusQuarterForeground
  | Disabled

text \<open>
  The command structures are declared outside the sources. A field named after an accessor
  (\<open>GetMaskAND\<close>, \<open>GetTexturePageBaseX\<close>, ...) holds the value that accessor returns.
\<close>

record GPUBackendDrawCommand =
  window_and_x :: u8
  window_and_y :: u8
  window_or_x :: u8
  window_or_y :: u8
  texture_mode :: GPUTextureMode
  transparency_mode :: GPUTransparencyMode
  GetTexturePageBaseX :: u16
  GetTexturePageBaseY :: u16
  GetXBase :: u16
  GetYBase :: u16
  interlaced_rendering :: bool
  active_line_lsb :: u8
  GetMaskAND :: u16
  GetMaskOR :: u16

record GPUBackendDrawSpriteCommand = GPUBackendDrawCommand +
  spr_x :: s32
  spr_y :: s32
  spr_width :: u32
  spr_height :: u32
  spr_color :: u32
  spr_texcoord :: u16

record Vertex =
  v_x :: s32
  v_y :: s32
  v_r :: u8
  v_g :: u8
  v_b :: u8
  v_u :: u8
  v_v :: u8

record LineVertex =
  l_x :: s32
  l_y :: s32
  l_r :: u8
  l_g :: u8
  l_b :: u8

record GPUDrawingArea =
  da_left :: u32
  da_top :: u32
  da_right :: u32
  da_bottom :: u32

record i_deltas =
  du_dx :: u32
  dv_dx :: u32
  dr_dx :: u32
  dg_dx :: u32
  db_dx :: u32
  du_dy :: u32
  dv_dy :: u32
  dr_dy :: u32
  dg_dy :: u32
  db_dy :: u32

record i_group =
  ig_u :: u32
  ig_v :: u32
  ig_r :: u32
  ig_g :: u32
  ig_b :: u32

record line_fxp_coord =
  cp_x :: u64
  cp_y :: u64
  cp_r :: u32
  cp_g :: u32
  cp_b :: u32

record line_fxp_step =
  dx_dk :: s64
  dy_dk :: s64
  dr_dk :: s32
  dg_dk :: s32
  db_dk :: s32

section \<open>VRAM access and pixel shader\<close>

definition GetPixel :: "vram \<Rightarrow> u32 \<Rightarrow> u32 \<Rightarrow> u16" where
  "GetPixel vram x y = vram (VRAM_WIDTH * y + x)"

definition SetPixel :: "u32 \<Rightarrow> u32 \<Rightarrow> u16 \<Rightarrow> vram \<Rightarrow> vram" where
  "SetPixel x y val vram = vram (VRAM_WIDTH * y + x := val)"

definition UnpackTexcoord :: "u16 \<Rightarrow> u8 \<times> u8" where
  "UnpackTexcoord texcoord = (ucast texcoord, ucast (drop_bit 8 texcoord))"

definition UnpackColorRGB24 :: "u32 \<Rightarrow> u8 \<times> u8 \<times> u8" where
  "UnpackColorRGB24 rgb24 = (ucast rgb24, ucast (drop_bit 8 rgb24), ucast (drop_bit 16 rgb24))"

text \<open>
  The texture fetch at the head of \<open>ShadePixel\<close>: texture window, then the switch on the
  texture mode (palette indirection for the 4- and 8-bit modes).
\<close>

definition SampleTexture ::
  "'a GPUBackendDrawCommand_scheme \<Rightarrow> vram \<Rightarrow> u8 \<Rightarrow> u8 \<Rightarrow> u16" where
  "SampleTexture cmd vram tcx tcy =
    (let texcoord_x = (tcx AND window_and_x cmd) OR window_or_x cmd;
         texcoord_y = (tcy AND window_and_y cmd) OR window_or_y cmd
     in case texture_mode cmd of
          Palette4Bit \<Rightarrow>
            (let palette_value =
                   GetPixel vram
                     ((ucast (GetTexturePageBaseX cmd) + ucast (texcoord_x div 4)) mod VRAM_WIDTH)
                     ((ucast (GetTexturePageBaseY cmd) + ucast texcoord_y) mod VRAM_HEIGHT);
                 palette_index =
                   (drop_bit (unat ((texcoord_x mod 4) * 4)) palette_value) AND 0x0F
             in GetPixel vram ((ucast (GetXBase cmd) + ucast palette_index) mod VRAM_WIDTH)
                  (ucast (GetYBase cmd)))
        | Palette8Bit \<Rightarrow>
            (let palette_value =
                   GetPixel vram
                     ((ucast (GetTexturePageBaseX cmd) + ucast (texcoord_x div 2)) mod VRAM_WIDTH)
                     ((ucast (GetTexturePageBaseY cmd) + ucast texcoord_y) mod VRAM_HEIGHT);
                 palette_index =
                   (drop_bit (unat ((texcoord_x mod 2) * 8)) palette_value) AND 0xFF
             in GetPixel vram ((ucast (GetXBase cmd) + ucast palette_index) mod VRAM_WIDTH)
                  (ucast (GetYBase cmd)))
        | Direct16Bit \<Rightarrow>
            GetPixel vram
              ((ucast (GetTexturePageBaseX cmd) + ucast texcoord_x) mod VRAM_WIDTH)
              ((ucast (GetTexturePageBaseY cmd) + ucast texcoord_y) mod VRAM_HEIGHT))"

text \<open>Modulation of a texel by the vertex colour through the dither table.\<close>

definition ModulateTexel :: "DitherLUT \<Rightarrow> nat \<Rightarrow> nat \<Rightarrow> u16 \<Rightarrow> u8 \<Rightarrow> u8 \<Rightarrow> u8 \<Rightarrow> u16" where
  "ModulateTexel lut dither_y dither_x texture_color color_r color_g color_b =
    (let t = (ucast texture_color :: u32);
         ir = unat (drop_bit 4 ((t AND 0x1F) * ucast color_r));
         ig = unat (drop_bit 4 ((drop_bit 5 t AND 0x1F) * ucast color_g));
         ib = unat (drop_bit 4 ((drop_bit 10 t AND 0x1F) * ucast color_b))
     in ucast ((ucast (lut dither_y dither_x ir) :: u32)
               OR push_bit 5 (ucast (lut dither_y dither_x ig))
               OR push_bit 10 (ucast (lut dither_y dither_x ib))
               OR (t AND 0x8000)))"

text \<open>The colour of an untextured pixel.\<close>

definition FlatColor :: "DitherLUT \<Rightarrow> nat \<Rightarrow> nat \<Rightarrow> bool \<Rightarrow> u8 \<Rightarrow> u8 \<Rightarrow> u8 \<Rightarrow> u16" where
  "FlatColor lut dither_y dither_x transparency_enable color_r color_g color_b =
    ucast ((ucast (lut dither_y dither_x (unat color_r)) :: u32)
           OR push_bit 5 (ucast (lut dither_y dither_x (unat color_g)))
           OR push_bit 10 (ucast (lut dither_y dither_x (unat color_b)))
           OR (if transparency_enable then 0x8000 else 0))"

text \<open>
  The four blend formulas of the transparency switch, on the zero-extended background and
  foreground words; the default branch leaves the colour as it is.
\<close>

fun Blend :: "GPUTransparencyMode \<Rightarrow> u16 \<Rightarrow> u16 \<Rightarrow> u16" where
  "Blend HalfBackgroundPlusHalfForeground bg_color color =
    (let bg_bits = (ucast bg_color :: u32) OR 0x8000;
         fg_bits = (ucast color :: u32)
     in ucast (drop_bit 1 ((fg_bits + bg_bits) - ((fg_bits XOR bg_bits) AND 0x0421))))"
| "Blend BackgroundPlusForeground bg_color color =
    (let bg_bits = (ucast bg_color :: u32) AND NOT 0x8000;
         fg_bits = (ucast color :: u32);
         sum = fg_bits + bg_bits;
         carry = (sum - ((fg_bits XOR bg_bits) AND 0x8421)) AND 0x8420
     in ucast ((sum - carry) OR (carry - drop_bit 5 carry)))"
| "Blend BackgroundMinusForeground bg_color color =
    (let bg_bits = (ucast bg_color :: u32) OR 0x8000;
         fg_bits = (ucast color :: u32) AND NOT 0x8000;
         diff = bg_bits - fg_bits + 0x108420;
         borrow = (diff - ((bg_bits XOR fg_bits) AND 0x108420)) AND 0x108420
     in ucast ((diff - borrow) AND (borrow - drop_bit 5 borrow)))"
| "Blend BackgroundPlusQuarterForeground bg_color color =
    (let bg_bits = (ucast bg_color :: u32) AND NOT 0x8000;
         fg_bits = (drop_bit 2 (ucast color :: u32) AND 0x1CE7) OR 0x8000;
         sum = fg_bits + bg_bits;
         carry = (sum - ((fg_bits XOR bg_bits) AND 0x8421)) AND 0x8420
     in ucast ((sum - carry) OR (carry - drop_bit 5 carry)))"
| "Blend Disabled bg_color color = color"

definition ShadePixel ::
  "bool \<Rightarrow> bool \<Rightarrow> bool \<Rightarrow> bool \<Rightarrow> DitherLUT \<Rightarrow> 'a GPUBackendDrawCommand_scheme \<Rightarrow>
   u32 \<Rightarrow> u32 \<Rightarrow> u8 \<Rightarrow> u8 \<Rightarrow> u8 \<Rightarrow> u8 \<Rightarrow> u8 \<Rightarrow> vram \<Rightarrow> vram" where
  "ShadePixel texture_enable raw_texture_enable transparency_enable dithering_enable
     lut cmd x y color_r color_g color_b texcoord_x texcoord_y vram =
    (let texture_color = SampleTexture cmd vram texcoord_x texcoord_y;
         dither_y = (if dithering_enable then unat (y AND 3) else 2);
         dither_x = (if dithering_enable then unat (x AND 3) else 3)
     in if texture_enable \<and> texture_color = 0 then vram
        else
          let color0 =
                (if texture_enable then
                   (if raw_texture_enable then texture_color
                    else ModulateTexel lut dither_y dither_x texture_color color_r color_g color_b)
                 else FlatColor lut dither_y dither_x transparency_enable color_r color_g color_b);
              bg_color = GetPixel vram x y;
              color =
                (if transparency_enable \<and> (color0 AND 0x8000 \<noteq> 0 \<or> \<not> texture_enable) then
                   (let blended = Blend (transparency_mode cmd) bg_color color0
                    in if \<not> texture_enable then blended AND NOT 0x8000 else blended)
                 else color0);
              mask_and = GetMaskAND cmd
          in if bg_color AND mask_and \<noteq> 0 then vram
             else SetPixel x y (color OR GetMaskOR cmd) vram)"

section \<open>Rectangles\<close>

text \<open>
  The two \<open>for\<close> loops of \<open>DrawRectangle\<close> count a \<open>u32\<close> offset from 0 up to the height
  and the width; each is a fold over the offsets. \<open>DrawRectangle_pixel\<close> is the body of the
  inner loop and \<open>DrawRectangle_row\<close> the body of the outer one.
\<close>

definition interlace_skip :: "'a GPUBackendDrawCommand_scheme \<Rightarrow> s32 \<Rightarrow> bool" where
  "interlace_skip cmd y \<longleftrightarrow>
     interlaced_rendering cmd \<and>
     (ucast (active_line_lsb cmd) :: u32) = (ucast (ucast y :: u8) AND 1)"

definition DrawRectangle_pixel ::
  "bool \<Rightarrow> bool \<Rightarrow> bool \<Rightarrow> DitherLUT \<Rightarrow> GPUDrawingArea \<Rightarrow> GPUBackendDrawSpriteCommand \<Rightarrow>
   s32 \<Rightarrow> u8 \<Rightarrow> u32 \<Rightarrow> vram \<Rightarrow> vram" where
  "DrawRectangle_pixel texture_enable raw_texture_enable transparency_enable lut da cmd
     y texcoord_y offset_x vram =
    (let origin_x = spr_x cmd;
         (r, g, b) = UnpackColorRGB24 (spr_color cmd);
         (origin_texcoord_x, origin_texcoord_y) = UnpackTexcoord (spr_texcoord cmd);
         x = origin_x + offset_x
     in if x <s da_left da \<or> da_right da <s x then vram
        else
          let texcoord_x = (ucast ((ucast origin_texcoord_x :: u32) + offset_x) :: u8)
          in ShadePixel texture_enable raw_texture_enable transparency_enable False
               lut cmd x y r g b texcoord_x texcoord_y vram)"

definition DrawRectangle_row ::
  "bool \<Rightarrow> bool \<Rightarrow> bool \<Rightarrow> DitherLUT \<Rightarrow> GPUDrawingArea \<Rightarrow> GPUBackendDrawSpriteCommand \<Rightarrow>
   u32 \<Rightarrow> vram \<Rightarrow> vram" where
  "DrawRectangle_row texture_enable raw_texture_enable transparency_enable lut da cmd
     offset_y vram =
    (let origin_y = spr_y cmd;
         (origin_texcoord_x, origin_texcoord_y) = UnpackTexcoord (spr_texcoord cmd);
         y = origin_y + offset_y
     in if y <s da_top da \<or> da_bottom da <s y \<or> interlace_skip cmd y then vram
        else
          let texcoord_y = (ucast ((ucast origin_texcoord_y :: u32) + offset_y) :: u8)
          in fold (\<lambda>i. DrawRectangle_pixel texture_enable raw_texture_enable transparency_enable
                          lut da cmd y texcoord_y (word_of_nat i))
               [0..<unat (spr_width cmd)] vram)"

definition DrawRectangle ::
  "bool \<Rightarrow> bool \<Rightarrow> bool \<Rightarrow> DitherLUT \<Rightarrow> GPUDrawingArea \<Rightarrow> GPUBackendDrawSpriteCommand \<Rightarrow>
   vram \<Rightarrow> vram" where
  "DrawRectangle texture_enable raw_texture_enable transparency_enable lut da cmd vram =
    fold (\<lambda>i. DrawRectangle_row texture_enable raw_texture_enable transparency_enable
                 lut da cmd (word_of_nat i))
      [0..<unat (spr_height cmd)] vram"

section \<open>Polygon setup arithmetic\<close>

text \<open>
  C++ integer division truncates towards zero; on words it is the signed division of the
  two's-complement values. Every call in the source is behind a test that the divisor is
  not zero.
\<close>

definition word_sdiv :: "'a::len word \<Rightarrow> 'a word \<Rightarrow> 'a word" where
  "word_sdiv a b = word_of_int (sint a sdiv sint b)"

definition word_abs :: "'a::len word \<Rightarrow> 'a word" where
  "word_abs a = (if a <s 0 then - a else a)"

text \<open>
  Modelled from the spec: \<open>TruncateGPUVertexPosition\<close> is declared outside the sources;
  positions are sign-extended from 11 bits.
\<close>

definition TruncateGPUVertexPosition :: "s32 \<Rightarrow> s32" where
  "TruncateGPUVertexPosition x = signed_take_bit 10 x"

definition MakePolyXFP :: "s32 \<Rightarrow> s64" where
  "MakePolyXFP x = push_bit 32 (scast x :: u64) + (push_bit 32 1 - push_bit 11 1)"

definition MakePolyXFPStep :: "s32 \<Rightarrow> s32 \<Rightarrow> s64" where
  "MakePolyXFPStep dx dy =
    (let dx_ex0 = (push_bit 32 (scast dx :: u64) :: s64);
         dx_ex1 = (if dx_ex0 <s 0 then dx_ex0 - scast (dy - 1) else dx_ex0);
         dx_ex2 = (if 0 <s dx_ex1 then dx_ex1 + scast (dy - 1) else dx_ex1)
     in word_sdiv dx_ex2 (scast dy))"

definition GetPolyXFP_Int :: "s64 \<Rightarrow> s32" where
  "GetPolyXFP_Int xfp = ucast (signed_drop_bit 32 xfp)"

text \<open>
  The macro \<open>CALCIS(x, y)\<close> takes two field names; here it takes the two fields as functions
  of a vertex, the 8-bit ones promoted to \<open>int\<close> as in the source.
\<close>

definition CALCIS :: "(Vertex \<Rightarrow> s32) \<Rightarrow> (Vertex \<Rightarrow> s32) \<Rightarrow> Vertex \<Rightarrow> Vertex \<Rightarrow> Vertex \<Rightarrow> s32" where
  "CALCIS fx fy A B C = ((fx B - fx A) * (fy C - fy B)) - ((fx C - fx B) * (fy B - fy A))"

definition i_r :: "Vertex \<Rightarrow> s32" where "i_r p = ucast (v_r p)"
definition i_g :: "Vertex \<Rightarrow> s32" where "i_g p = ucast (v_g p)"
definition i_b :: "Vertex \<Rightarrow> s32" where "i_b p = ucast (v_b p)"
definition i_u :: "Vertex \<Rightarrow> s32" where "i_u p = ucast (v_u p)"
definition i_v :: "Vertex \<Rightarrow> s32" where "i_v p = ucast (v_v p)"

definition idelta :: "s32 \<Rightarrow> s32 \<Rightarrow> u32" where
  "idelta num denom = push_bit COORD_POST_PADDING (word_sdiv (num * push_bit COORD_FBS 1) denom)"

text \<open>
  \<open>CalcIDeltas\<close> returns \<open>false\<close> (here \<open>None\<close>) when the denominator is zero. The source leaves
  the fields of a disabled attribute group uninitialised; they keep the value of the
  argument \<open>idl\<close> and are read only by specialisations that ignore them.
\<close>

definition CalcIDeltas ::
  "bool \<Rightarrow> bool \<Rightarrow> i_deltas \<Rightarrow> Vertex \<Rightarrow> Vertex \<Rightarrow> Vertex \<Rightarrow> i_deltas option" where
  "CalcIDeltas shading_enable texture_enable idl A B C =
    (let denom = CALCIS v_x v_y A B C
     in if denom = 0 then None
        else
          let idl1 =
                (if shading_enable then
                   idl\<lparr>dr_dx := idelta (CALCIS i_r v_y A B C) denom,
                       dr_dy := idelta (CALCIS v_x i_r A B C) denom,
                       dg_dx := idelta (CALCIS i_g v_y A B C) denom,
                       dg_dy := idelta (CALCIS v_x i_g A B C) denom,
                       db_dx := idelta (CALCIS i_b v_y A B C) denom,
                       db_dy := idelta (CALCIS v_x i_b A B C) denom\<rparr>
                 else idl);
              idl2 =
                (if texture_enable then
                   idl1\<lparr>du_dx := idelta (CALCIS i_u v_y A B C) denom,
                        du_dy := idelta (CALCIS v_x i_u A B C) denom,
                        dv_dx := idelta (CALCIS i_v v_y A B C) denom,
                        dv_dy := idelta (CALCIS v_x i_v A B C) denom\<rparr>
                 else idl1)
          in Some idl2)"

definition AddIDeltas_DX :: "bool \<Rightarrow> bool \<Rightarrow> i_group \<Rightarrow> i_deltas \<Rightarrow> u32 \<Rightarrow> i_group" where
  "AddIDeltas_DX shading_enable texture_enable ig idl count =
    (let ig1 =
           (if shading_enable then
              ig\<lparr>ig_r := ig_r ig + dr_dx idl * count,
                 ig_g := ig_g ig + dg_dx idl * count,
                 ig_b := ig_b ig + db_dx idl * count\<rparr>
            else ig)
     in if texture_enable then
          ig1\<lparr>ig_u := ig_u ig1 + du_dx idl * count, ig_v := ig_v ig1 + dv_dx idl * count\<rparr>
        else ig1)"

definition AddIDeltas_DY :: "bool \<Rightarrow> bool \<Rightarrow> i_group \<Rightarrow> i_deltas \<Rightarrow> u32 \<Rightarrow> i_group" where
  "AddIDeltas_DY shading_enable texture_enable ig idl count =
    (let ig1 =
           (if shading_enable then
              ig\<lparr>ig_r := ig_r ig + dr_dy idl * count,
                 ig_g := ig_g ig + dg_dy idl * count,
                 ig_b := ig_b ig + db_dy idl * count\<rparr>
            else ig)
     in if texture_enable then
          ig1\<lparr>ig_u := ig_u ig1 + du_dy idl * count, ig_v := ig_v ig1 + dv_dy idl * count\<rparr>
        else ig1)"

section \<open>Triangles\<close>

text \<open>
  The \<open>do ... while (--w > 0)\<close> loop of \<open>DrawSpan\<close>: one pixel, then the next while the
  decremented width is positive.
\<close>

function DrawSpan_loop ::
  "bool \<Rightarrow> bool \<Rightarrow> bool \<Rightarrow> bool \<Rightarrow> bool \<Rightarrow> DitherLUT \<Rightarrow> 'a GPUBackendDrawCommand_scheme \<Rightarrow>
   i_deltas \<Rightarrow> s32 \<Rightarrow> s32 \<Rightarrow> s32 \<Rightarrow> i_group \<Rightarrow> vram \<Rightarrow> vram" where
  "DrawSpan_loop shading_enable texture_enable raw_texture_enable transparency_enable
     dithering_enable lut cmd idl y w x ig vram =
    (let r = drop_bit (COORD_FBS + COORD_POST_PADDING) (ig_r ig);
         g = drop_bit (COORD_FBS + COORD_POST_PADDING) (ig_g ig);
         b = drop_bit (COORD_FBS + COORD_POST_PADDING) (ig_b ig);
         u = drop_bit (COORD_FBS + COORD_POST_PADDING) (ig_u ig);
         v = drop_bit (COORD_FBS + COORD_POST_PADDING) (ig_v ig);
         vram1 = ShadePixel texture_enable raw_texture_enable transparency_enable
                   dithering_enable lut cmd x y
                   (ucast r) (ucast g) (ucast b) (ucast u) (ucast v) vram;
         x1 = x + 1;
         ig1 = AddIDeltas_DX shading_enable texture_enable ig idl 1;
         w1 = w - 1
     in if 0 <s w1 then
          DrawSpan_loop shading_enable texture_enable raw_texture_enable transparency_enable
            dithering_enable lut cmd idl y w1 x1 ig1 vram1
        else vram1)"
  by pat_completeness auto
termination
proof (relation "measure (\<lambda>(sh, tx, raw, tr, di, lut, cmd, idl, y, w, x, ig, vram). unat (w - 1))")
  show "wf (measure (\<lambda>(sh, tx, raw, tr, di, lut, cmd, idl, y, w, x, ig, vram). unat (w - 1)))"
    by simp
next
  fix w w1 :: s32
  assume w1: "w1 = w - 1" and pos: "0 <s w1"
  from pos have "w1 \<noteq> 0" by auto
  then have "unat (w1 - 1) < unat w1"
    by (simp add: unat_minus_one unat_gt_0)
  then show "\<And>sh tx raw tr di lut cmd idl y x ig vram r g b u v vram1 x1 ig1.
      ((sh, tx, raw, tr, di, lut, cmd, idl, y, w1, x1, ig1, vram1),
       (sh, tx, raw, tr, di, lut, cmd, idl, y, w, x, ig, vram))
      \<in> measure (\<lambda>(sh, tx, raw, tr, di, lut, cmd, idl, y, w, x, ig, vram). unat (w - 1))"
    using w1 by simp
qed

declare DrawSpan_loop.simps [simp del]

text \<open>
  The clipping at the head of \<open>DrawSpan\<close>: the attribute offset \<open>x_ig_adjust\<close>, the first
  pixel \<open>x\<close> and the width \<open>w\<close>, after clipping to the left and right of the drawing area.
\<close>

definition ClipSpan :: "GPUDrawingArea \<Rightarrow> s32 \<Rightarrow> s32 \<Rightarrow> s32 \<times> s32 \<times> s32" where
  "ClipSpan da x_start x_bound =
    (let x_ig_adjust0 = x_start;
         w0 = x_bound - x_start;
         x0 = TruncateGPUVertexPosition x_start;
         (x_ig_adjust, x, w1) =
           (if x0 <s da_left da then
              (let delta = da_left da - x0 in (x_ig_adjust0 + delta, x0 + delta, w0 - delta))
            else (x_ig_adjust0, x0, w0));
         w = (if da_right da + 1 <s x + w1 then da_right da + 1 - x else w1)
     in (x_ig_adjust, x, w))"

definition DrawSpan ::
  "bool \<Rightarrow> bool \<Rightarrow> bool \<Rightarrow> bool \<Rightarrow> bool \<Rightarrow> DitherLUT \<Rightarrow> GPUDrawingArea \<Rightarrow>
   'a GPUBackendDrawCommand_scheme \<Rightarrow> s32 \<Rightarrow> s32 \<Rightarrow> s32 \<Rightarrow> i_group \<Rightarrow> i_deltas \<Rightarrow> vram \<Rightarrow> vram" where
  "DrawSpan shading_enable texture_enable raw_texture_enable transparency_enable
     dithering_enable lut da cmd y x_start x_bound ig idl vram =
    (if interlace_skip cmd y then vram
     else
       case ClipSpan da x_start x_bound of
         (x_ig_adjust, x, w) \<Rightarrow>
           if w \<le>s 0 then vram
           else
             let ig1 = AddIDeltas_DX shading_enable texture_enable ig idl x_ig_adjust;
                 ig2 = AddIDeltas_DY shading_enable texture_enable ig1 idl y
             in DrawSpan_loop shading_enable texture_enable raw_texture_enable
                  transparency_enable dithering_enable lut cmd idl y w x ig2 vram)"

text \<open>
  The vertex sort at the head of \<open>DrawTriangle\<close>: the mask \<open>cvtemp\<close> of the vertex chosen by
  the x comparisons, three compare-and-swap steps on y that permute the mask with the
  vertices, and \<open>core_vertex = cvtemp >> 1\<close>.
\<close>

definition swap_2_1 :: "u32 \<Rightarrow> u32" where
  "swap_2_1 cvtemp = (drop_bit 1 cvtemp AND 0x2) OR (push_bit 1 cvtemp AND 0x4) OR (cvtemp AND 0x1)"

definition swap_1_0 :: "u32 \<Rightarrow> u32" where
  "swap_1_0 cvtemp = (drop_bit 1 cvtemp AND 0x1) OR (push_bit 1 cvtemp AND 0x2) OR (cvtemp AND 0x4)"

definition SortVertices :: "Vertex \<Rightarrow> Vertex \<Rightarrow> Vertex \<Rightarrow> Vertex \<times> Vertex \<times> Vertex \<times> u32" where
  "SortVertices a0 a1 a2 =
    (let cvtemp0 =
           (if v_x a1 \<le>s v_x a0 then
              (if v_x a2 \<le>s v_x a1 then push_bit 2 1 else push_bit 1 1)
            else if v_x a2 <s v_x a0 then push_bit 2 1
            else push_bit 0 1);
         (b0, b1, b2, cvtemp1) =
           (if v_y a2 <s v_y a1 then (a0, a2, a1, swap_2_1 cvtemp0) else (a0, a1, a2, cvtemp0));
         (c0, c1, c2, cvtemp2) =
           (if v_y b1 <s v_y b0 then (b1, b0, b2, swap_1_0 cvtemp1) else (b0, b1, b2, cvtemp1));
         (d0, d1, d2, cvtemp3) =
           (if v_y c2 <s v_y c1 then (c0, c2, c1, swap_2_1 cvtemp2) else (c0, c1, c2, cvtemp2))
     in (d0, d1, d2, drop_bit 1 cvtemp3))"

text \<open>
  One \<open>TriangleHalf\<close>: the arrays \<open>x_coord[2]\<close> and \<open>x_step[2]\<close> are pairs, index 0 first.
\<close>

record TriangleHalf =
  x_coord :: "u64 \<times> u64"
  x_step :: "u64 \<times> u64"
  y_coord :: s32
  y_bound :: s32
  dec_mode :: bool

text \<open>
  \<open>set2 right_facing a b\<close> is the array after \<open>arr[right_facing] = a; arr[!right_facing] = b\<close>.
\<close>

definition set2 :: "bool \<Rightarrow> 'a \<Rightarrow> 'a \<Rightarrow> 'a \<times> 'a" where
  "set2 right_facing a b = (if right_facing then (b, a) else (a, b))"

text \<open>The decrementing row loop of a triangle half (\<open>while (yi > yb)\<close>).\<close>

function DrawHalf_dec ::
  "bool \<Rightarrow> bool \<Rightarrow> bool \<Rightarrow> bool \<Rightarrow> bool \<Rightarrow> DitherLUT \<Rightarrow> GPUDrawingArea \<Rightarrow>
   'a GPUBackendDrawCommand_scheme \<Rightarrow> i_group \<Rightarrow> i_deltas \<Rightarrow> s32 \<Rightarrow> u64 \<Rightarrow> u64 \<Rightarrow>
   s32 \<Rightarrow> u64 \<Rightarrow> u64 \<Rightarrow> vram \<Rightarrow> vram" where
  "DrawHalf_dec shading_enable texture_enable raw_texture_enable transparency_enable
     dithering_enable lut da cmd ig idl yb ls rs yi lc rc vram =
    (if yb <s yi then
       (let yi1 = yi - 1;
            lc1 = lc - ls;
            rc1 = rc - rs;
            y = TruncateGPUVertexPosition yi1
        in if y <s da_top da then vram
           else if da_bottom da <s y then
             DrawHalf_dec shading_enable texture_enable raw_texture_enable transparency_enable
               dithering_enable lut da cmd ig idl yb ls rs yi1 lc1 rc1 vram
           else
             DrawHalf_dec shading_enable texture_enable raw_texture_enable transparency_enable
               dithering_enable lut da cmd ig idl yb ls rs yi1 lc1 rc1
               (DrawSpan shading_enable texture_enable raw_texture_enable transparency_enable
                  dithering_enable lut da cmd yi1 (GetPolyXFP_Int lc1) (GetPolyXFP_Int rc1)
                  ig idl vram))
     else vram)"
  by pat_completeness auto
termination
proof (relation "measure (\<lambda>(sh, tx, raw, tr, di, lut, da, cmd, ig, idl, yb, ls, rs, yi, lc, rc,
                            vram). nat (sint yi - sint yb))")
  fix yb yi yi1 :: s32
  assume lt: "yb <s yi" and yi1: "yi1 = yi - 1"
  have "- (2 ^ 31) \<le> sint yb" and "sint yi < 2 ^ 31"
    using sint_ge [of yb] sint_lt [of yi] by simp_all
  then have "sint (yi - 1) = sint yi - 1"
    using lt by (simp add: word_sless_alt sint_word_ariths signed_take_bit_int_eq_self)
  then have dec: "nat (sint yi1 - sint yb) < nat (sint yi - sint yb)"
    using lt yi1 by (simp add: word_sless_alt)
  show "\<And>sh tx raw tr di lut da cmd ig idl ls rs lc rc vram lc1 rc1 y.
      ((sh, tx, raw, tr, di, lut, da, cmd, ig, idl, yb, ls, rs, yi1, lc1, rc1, vram),
       (sh, tx, raw, tr, di, lut, da, cmd, ig, idl, yb, ls, rs, yi, lc, rc, vram))
      \<in> measure (\<lambda>(sh, tx, raw, tr, di, lut, da, cmd, ig, idl, yb, ls, rs, yi, lc, rc, vram).
                   nat (sint yi - sint yb))"
    using dec by simp
  show "\<And>sh tx raw tr di lut da cmd ig idl ls rs lc rc vram lc1 rc1 y vram1.
      ((sh, tx, raw, tr, di, lut, da, cmd, ig, idl, yb, ls, rs, yi1, lc1, rc1, vram1),
       (sh, tx, raw, tr, di, lut, da, cmd, ig, idl, yb, ls, rs, yi, lc, rc, vram))
      \<in> measure (\<lambda>(sh, tx, raw, tr, di, lut, da, cmd, ig, idl, yb, ls, rs, yi, lc, rc, vram).
                   nat (sint yi - sint yb))"
    using dec by simp
qed simp

declare DrawHalf_dec.simps [simp del]

text \<open>The incrementing row loop of a triangle half (\<open>while (yi < yb)\<close>).\<close>

function DrawHalf_inc ::
  "bool \<Rightarrow> bool \<Rightarrow> bool \<Rightarrow> bool \<Rightarrow> bool \<Rightarrow> DitherLUT \<Rightarrow> GPUDrawingArea \<Rightarrow>
   'a GPUBackendDrawCommand_scheme \<Rightarrow> i_group \<Rightarrow> i_deltas \<Rightarrow> s32 \<Rightarrow> u64 \<Rightarrow> u64 \<Rightarrow>
   s32 \<Rightarrow> u64 \<Rightarrow> u64 \<Rightarrow> vram \<Rightarrow> vram" where
  "DrawHalf_inc shading_enable texture_enable raw_texture_enable transparency_enable
     dithering_enable lut da cmd ig idl yb ls rs yi lc rc vram =
    (if yi <s yb then
       (let y = TruncateGPUVertexPosition yi
        in if da_bottom da <s y then vram
           else
             DrawHalf_inc shading_enable texture_enable raw_texture_enable transparency_enable
               dithering_enable lut da cmd ig idl yb ls rs (yi + 1) (lc + ls) (rc + rs)
               (if da_top da \<le>s y then
                  DrawSpan shading_enable texture_enable raw_texture_enable transparency_enable
                    dithering_enable lut da cmd yi (GetPolyXFP_Int lc) (GetPolyXFP_Int rc)
                    ig idl vram
                else vram))
     else vram)"
  by pat_completeness auto
termination
proof (relation "measure (\<lambda>(sh, tx, raw, tr, di, lut, da, cmd, ig, idl, yb, ls, rs, yi, lc, rc,
                            vram). nat (sint yb - sint yi))")
  fix yb yi :: s32
  assume lt: "yi <s yb"
  have "- (2 ^ 31) \<le> sint yi" and "sint yb < 2 ^ 31"
    using sint_ge [of yi] sint_lt [of yb] by simp_all
  then have "sint (yi + 1) = sint yi + 1"
    using lt by (simp add: word_sless_alt sint_word_ariths signed_take_bit_int_eq_self)
  then have dec: "nat (sint yb - sint (yi + 1)) < nat (sint yb - sint yi)"
    using lt by (simp add: word_sless_alt)
  show "\<And>sh tx raw tr di lut da cmd ig idl ls rs lc rc vram y.
      ((sh, tx, raw, tr, di, lut, da, cmd, ig, idl, yb, ls, rs, yi + 1, lc + ls, rc + rs,
        if da_top da \<le>s y then
          DrawSpan sh tx raw tr di lut da cmd yi (GetPolyXFP_Int lc) (GetPolyXFP_Int rc)
            ig idl vram
        else vram),
       (sh, tx, raw, tr, di, lut, da, cmd, ig, idl, yb, ls, rs, yi, lc, rc, vram))
      \<in> measure (\<lambda>(sh, tx, raw, tr, di, lut, da, cmd, ig, idl, yb, ls, rs, yi, lc, rc, vram).
                   nat (sint yb - sint yi))"
    using dec by simp
qed simp

declare DrawHalf_inc.simps [simp del]

text \<open>The body of \<open>for (u32 i = 0; i < 2; i++)\<close>: one half, in the direction of its \<open>dec_mode\<close>.\<close>

definition DrawHalf ::
  "bool \<Rightarrow> bool \<Rightarrow> bool \<Rightarrow> bool \<Rightarrow> bool \<Rightarrow> DitherLUT \<Rightarrow> GPUDrawingArea \<Rightarrow>
   'a GPUBackendDrawCommand_scheme \<Rightarrow> i_group \<Rightarrow> i_deltas \<Rightarrow> TriangleHalf \<Rightarrow> vram \<Rightarrow> vram" where
  "DrawHalf shading_enable texture_enable raw_texture_enable transparency_enable
     dithering_enable lut da cmd ig idl tp vram =
    (let yi = y_coord tp;
         yb = y_bound tp;
         lc = fst (x_coord tp);
         ls = fst (x_step tp);
         rc = snd (x_coord tp);
         rs = snd (x_step tp)
     in if dec_mode tp then
          DrawHalf_dec shading_enable texture_enable raw_texture_enable transparency_enable
            dithering_enable lut da cmd ig idl yb ls rs yi lc rc vram
        else
          DrawHalf_inc shading_enable texture_enable raw_texture_enable transparency_enable
            dithering_enable lut da cmd ig idl yb ls rs yi lc rc vram)"

definition idl_init :: i_deltas where
  "idl_init = \<lparr>du_dx = 0, dv_dx = 0, dr_dx = 0, dg_dx = 0, db_dx = 0,
               du_dy = 0, dv_dy = 0, dr_dy = 0, dg_dy = 0, db_dy = 0\<rparr>"

definition ig_origin :: "s32 \<Rightarrow> u32" where
  "ig_origin a = push_bit COORD_POST_PADDING (push_bit COORD_FBS a + push_bit (COORD_FBS - 1) 1)"

text \<open>
  The attribute accumulator of \<open>DrawTriangle\<close>: the attributes of the core vertex with the
  half-unit bias, backed off to the origin. \<open>ig.u\<close> and \<open>ig.v\<close>, which the source leaves
  uninitialised when texturing is off, start at 0.
\<close>

definition SetupIGroup :: "bool \<Rightarrow> bool \<Rightarrow> i_deltas \<Rightarrow> Vertex \<Rightarrow> i_group" where
  "SetupIGroup shading_enable texture_enable idl cv =
    (let ig0 = \<lparr>ig_u = 0, ig_v = 0, ig_r = 0, ig_g = 0, ig_b = 0\<rparr>;
         ig1 = (if texture_enable then
                  ig0\<lparr>ig_u := ig_origin (i_u cv), ig_v := ig_origin (i_v cv)\<rparr>
                else ig0);
         ig2 = ig1\<lparr>ig_r := ig_origin (i_r cv), ig_g := ig_origin (i_g cv),
                   ig_b := ig_origin (i_b cv)\<rparr>;
         ig3 = AddIDeltas_DX shading_enable texture_enable ig2 idl (- v_x cv)
     in AddIDeltas_DY shading_enable texture_enable ig3 idl (- v_y cv))"

text \<open>
  The edge setup of \<open>DrawTriangle\<close>: the slopes, the facing, and the array \<open>tripart\<close> of the
  two halves. \<open>tripart[vo]\<close> is the upper half and \<open>tripart[vo ^ 1]\<close> the lower one; the list
  is \<open>tripart[0]\<close>, then \<open>tripart[1]\<close>, the order in which the final loop runs them.
\<close>

definition SetupHalves :: "Vertex \<Rightarrow> Vertex \<Rightarrow> Vertex \<Rightarrow> u32 \<Rightarrow> TriangleHalf list" where
  "SetupHalves v0 v1 v2 core_vertex =
    (let base_coord = MakePolyXFP (v_x v0);
         base_step = MakePolyXFPStep (v_x v2 - v_x v0) (v_y v2 - v_y v0);
         (bound_coord_us, right_facing) =
           (if v_y v1 = v_y v0 then (0, v_x v0 <s v_x v1)
            else
              (let us = MakePolyXFPStep (v_x v1 - v_x v0) (v_y v1 - v_y v0)
               in (us, base_step <s us)));
         bound_coord_ls =
           (if v_y v2 = v_y v1 then 0
            else MakePolyXFPStep (v_x v2 - v_x v1) (v_y v2 - v_y v1));
         vertices = [v0, v1, v2];
         vo = (if core_vertex \<noteq> 0 then 1 else 0 :: u32);
         vp = (if core_vertex = 2 then 3 else 0 :: u32);
         tp_upper =
           \<lparr>x_coord =
              set2 right_facing
                (MakePolyXFP (v_x (vertices ! unat (0 XOR vo))))
                (base_coord
                   + scast (v_y (vertices ! unat vo) - v_y (vertices ! 0)) * base_step),
            x_step = set2 right_facing bound_coord_us base_step,
            y_coord = v_y (vertices ! unat (0 XOR vo)),
            y_bound = v_y (vertices ! unat (1 XOR vo)),
            dec_mode = (vo \<noteq> 0)\<rparr>;
         tp_lower =
           \<lparr>x_coord =
              set2 right_facing
                (MakePolyXFP (v_x (vertices ! unat (1 XOR vp))))
                (base_coord
                   + scast (v_y (vertices ! unat (1 XOR vp)) - v_y (vertices ! 0))
                     * base_step),
            x_step = set2 right_facing bound_coord_ls base_step,
            y_coord = v_y (vertices ! unat (1 XOR vp)),
            y_bound = v_y (vertices ! unat (2 XOR vp)),
            dec_mode = (vp \<noteq> 0)\<rparr>
     in if vo = 0 then [tp_upper, tp_lower] else [tp_lower, tp_upper])"

text \<open>
  \<open>DrawTriangle\<close>: sort, the two rejections, the edge setup, the gradients (the local \<open>idl\<close>,
  uninitialised in the source, starts at 0), the accumulator, and the two halves.
\<close>

definition DrawTriangle ::
  "bool \<Rightarrow> bool \<Rightarrow> bool \<Rightarrow> bool \<Rightarrow> bool \<Rightarrow> DitherLUT \<Rightarrow> GPUDrawingArea \<Rightarrow>
   'a GPUBackendDrawCommand_scheme \<Rightarrow> Vertex \<Rightarrow> Vertex \<Rightarrow> Vertex \<Rightarrow> vram \<Rightarrow> vram" where
  "DrawTriangle shading_enable texture_enable raw_texture_enable transparency_enable
     dithering_enable lut da cmd a0 a1 a2 vram =
    (let (v0, v1, v2, core_vertex) = SortVertices a0 a1 a2
     in if v_y v0 = v_y v2 then vram
        else if MAX_PRIMITIVE_WIDTH \<le> word_abs (v_x v2 - v_x v0) \<or>
                MAX_PRIMITIVE_WIDTH \<le> word_abs (v_x v2 - v_x v1) \<or>
                MAX_PRIMITIVE_WIDTH \<le> word_abs (v_x v1 - v_x v0) \<or>
                MAX_PRIMITIVE_HEIGHT \<le> v_y v2 - v_y v0 then vram
        else
          let tripart = SetupHalves v0 v1 v2 core_vertex
          in case CalcIDeltas shading_enable texture_enable idl_init v0 v1 v2 of
               None \<Rightarrow> vram
             | Some idl \<Rightarrow>
                 let ig = SetupIGroup shading_enable texture_enable idl
                            ([v0, v1, v2] ! unat core_vertex)
                 in fold (DrawHalf shading_enable texture_enable raw_texture_enable
                            transparency_enable dithering_enable lut da cmd ig idl)
                      tripart vram)"

section \<open>Lines\<close>

definition LineDivide :: "s64 \<Rightarrow> s32 \<Rightarrow> s64" where
  "LineDivide delta dk =
    (let delta0 = (push_bit Line_XY_FractBits (delta :: u64) :: s64);
         delta1 = (if delta0 <s 0 then delta0 - scast (dk - 1) else delta0);
         delta2 = (if 0 <s delta1 then delta1 + scast (dk - 1) else delta1)
     in word_sdiv delta2 (scast dk))"

text \<open>The colour step \<open>(s32)((u32)(p1->c - p0->c) << Line_RGB_FractBits) / k\<close>.\<close>

definition LineColorStep :: "u8 \<Rightarrow> u8 \<Rightarrow> s32 \<Rightarrow> s32" where
  "LineColorStep c1 c0 k =
    word_sdiv (push_bit Line_RGB_FractBits ((ucast c1 :: u32) - ucast c0)) k"

text \<open>The clip test of the line loop: inside the drawing area, all four sides inclusive.\<close>

definition in_drawing_area :: "GPUDrawingArea \<Rightarrow> s32 \<Rightarrow> s32 \<Rightarrow> bool" where
  "in_drawing_area da x y \<longleftrightarrow>
     da_left da \<le>s x \<and> x \<le>s da_right da \<and> da_top da \<le>s y \<and> y \<le>s da_bottom da"

text \<open>
  The loop \<open>for (s32 i = 0; i <= k; i++)\<close> of \<open>DrawLine\<close>, by the number of iterations left.
  The counter \<open>i\<close> is used for nothing else, and after the size test \<open>k\<close> is below 1024, so
  the loop runs \<open>k + 1\<close> times.
\<close>

fun DrawLine_loop ::
  "bool \<Rightarrow> bool \<Rightarrow> bool \<Rightarrow> DitherLUT \<Rightarrow> GPUDrawingArea \<Rightarrow> 'a GPUBackendDrawCommand_scheme \<Rightarrow>
   LineVertex \<Rightarrow> line_fxp_step \<Rightarrow> nat \<Rightarrow> line_fxp_coord \<Rightarrow> vram \<Rightarrow> vram" where
  "DrawLine_loop shading_enable transparency_enable dithering_enable lut da cmd p0 step 0
     cur_point vram = vram"
| "DrawLine_loop shading_enable transparency_enable dithering_enable lut da cmd p0 step (Suc n)
     cur_point vram =
    (let x = (ucast (drop_bit Line_XY_FractBits (cp_x cur_point) AND 2047) :: s32);
         y = (ucast (drop_bit Line_XY_FractBits (cp_y cur_point) AND 2047) :: s32);
         vram1 =
           (if \<not> interlace_skip cmd y \<and> in_drawing_area da x y then
              (let r = (if shading_enable
                        then ucast (drop_bit Line_RGB_FractBits (cp_r cur_point)) else l_r p0);
                   g = (if shading_enable
                        then ucast (drop_bit Line_RGB_FractBits (cp_g cur_point)) else l_g p0);
                   b = (if shading_enable
                        then ucast (drop_bit Line_RGB_FractBits (cp_b cur_point)) else l_b p0)
               in ShadePixel False False transparency_enable dithering_enable lut cmd
                    x y r g b 0 0 vram)
            else vram);
         cur1 = cur_point\<lparr>cp_x := cp_x cur_point + dx_dk step,
                          cp_y := cp_y cur_point + dy_dk step\<rparr>;
         cur2 =
           (if shading_enable then
              cur1\<lparr>cp_r := cp_r cur1 + dr_dk step, cp_g := cp_g cur1 + dg_dk step,
                   cp_b := cp_b cur1 + db_dk step\<rparr>
            else cur1)
     in DrawLine_loop shading_enable transparency_enable dithering_enable lut da cmd p0 step n
          cur2 vram1)"

text \<open>
  The steps of \<open>DrawLine\<close> for the ordered endpoints \<open>p0\<close>, \<open>p1\<close>. The colour steps, which the
  source leaves uninitialised when shading is off, start at 0; that specialisation never
  reads them.
\<close>

definition LineStep :: "bool \<Rightarrow> LineVertex \<Rightarrow> LineVertex \<Rightarrow> s32 \<Rightarrow> line_fxp_step" where
  "LineStep shading_enable p0 p1 k =
    (let step0 = \<lparr>dx_dk = 0, dy_dk = 0, dr_dk = 0, dg_dk = 0, db_dk = 0\<rparr>
     in if k = 0 then step0
        else
          (let step1 = step0\<lparr>dx_dk := LineDivide (scast (l_x p1 - l_x p0)) k,
                             dy_dk := LineDivide (scast (l_y p1 - l_y p0)) k\<rparr>
           in if shading_enable then
                step1\<lparr>dr_dk := LineColorStep (l_r p1) (l_r p0) k,
                      dg_dk := LineColorStep (l_g p1) (l_g p0) k,
                      db_dk := LineColorStep (l_b p1) (l_b p0) k\<rparr>
              else step1))"

text \<open>The starting point \<open>cur_point\<close> of \<open>DrawLine\<close>; the colours start at 0 when shading is off.\<close>

definition LineStart :: "bool \<Rightarrow> LineVertex \<Rightarrow> line_fxp_step \<Rightarrow> line_fxp_coord" where
  "LineStart shading_enable p0 step =
    (let cur0 = \<lparr>cp_x = (push_bit Line_XY_FractBits (scast (l_x p0) :: u64)
                          OR push_bit (Line_XY_FractBits - 1) 1) - 1024,
                 cp_y = (let cy = push_bit Line_XY_FractBits (scast (l_y p0) :: u64)
                                    OR push_bit (Line_XY_FractBits - 1) 1
                         in if dy_dk step <s 0 then cy - 1024 else cy),
                 cp_r = 0, cp_g = 0, cp_b = 0\<rparr>
     in if shading_enable then
          cur0\<lparr>cp_r := push_bit Line_RGB_FractBits (ucast (l_r p0))
                         OR push_bit (Line_RGB_FractBits - 1) 1,
               cp_g := push_bit Line_RGB_FractBits (ucast (l_g p0))
                         OR push_bit (Line_RGB_FractBits - 1) 1,
               cp_b := push_bit Line_RGB_FractBits (ucast (l_b p0))
                         OR push_bit (Line_RGB_FractBits - 1) 1\<rparr>
        else cur0)"

text \<open>The step count \<open>k\<close> of \<open>DrawLine\<close>: the larger of \<open>i_dx\<close> and \<open>i_dy\<close>.\<close>

definition LineLength :: "LineVertex \<Rightarrow> LineVertex \<Rightarrow> s32" where
  "LineLength a0 a1 =
    (let i_dx = word_abs (l_x a1 - l_x a0);
         i_dy = word_abs (l_y a1 - l_y a0)
     in if i_dy <s i_dx then i_dx else i_dy)"

definition DrawLine ::
  "bool \<Rightarrow> bool \<Rightarrow> bool \<Rightarrow> DitherLUT \<Rightarrow> GPUDrawingArea \<Rightarrow> 'a GPUBackendDrawCommand_scheme \<Rightarrow>
   LineVertex \<Rightarrow> LineVertex \<Rightarrow> vram \<Rightarrow> vram" where
  "DrawLine shading_enable transparency_enable dithering_enable lut da cmd a0 a1 vram =
    (let i_dx = word_abs (l_x a1 - l_x a0);
         i_dy = word_abs (l_y a1 - l_y a0);
         k = LineLength a0 a1
     in if MAX_PRIMITIVE_WIDTH \<le> i_dx \<or> MAX_PRIMITIVE_HEIGHT \<le> i_dy then vram
        else
          let (p0, p1) = (if l_x a1 \<le>s l_x a0 \<and> 0 <s k then (a1, a0) else (a0, a1));
              step = LineStep shading_enable p0 p1 k;
              cur_point = LineStart shading_enable p0 step
          in DrawLine_loop shading_enable transparency_enable dithering_enable lut da cmd p0 step
               (nat (sint k + 1)) cur_point vram)"

section \<open>Function tables\<close>

text \<open>
  An entry of a function table is the tuple of template arguments of the specialisation it
  points to. The nested initialiser lists are nested lists; a flag indexes with 0 or 1.
\<close>

definition DrawRectangleFunctions :: "(bool \<times> bool \<times> bool) list list list" where
  "DrawRectangleFunctions =
    [[[(False, False, False), (False, False, True)],
      [(False, False, False), (False, False, True)]],
     [[(True, False, False), (True, False, True)],
      [(True, True, False), (True, True, True)]]]"

definition DrawLineFunctions :: "(bool \<times> bool \<times> bool) list list list" where
  "DrawLineFunctions =
    [[[(False, False, False), (False, False, True)],
      [(False, True, False), (False, True, True)]],
     [[(True, False, False), (True, False, True)],
      [(True, True, False), (True, True, True)]]]"

definition DrawTriangleFunctions :: "(bool \<times> bool \<times> bool \<times> bool \<times> bool) list list list list list" where
  "DrawTriangleFunctions =
    [[[[[(False, False, False, False, False), (False, False, False, False, True)],
        [(False, False, False, True, False), (False, False, False, True, True)]],
       [[(False, False, False, False, False), (False, False, False, False, False)],
        [(False, False, False, True, False), (False, False, False, True, False)]]],
      [[[(False, True, False, False, False), (False, True, False, False, True)],
        [(False, True, False, True, False), (False, True, False, True, True)]],
       [[(False, True, True, False, False), (False, True, True, False, False)],
        [(False, True, True, True, False), (False, True, True, True, False)]]]],
     [[[[(True, False, False, False, False), (True, False, False, False, True)],
        [(True, False, False, True, False), (True, False, False, True, True)]],
       [[(True, False, False, False, False), (True, False, False, False, False)],
        [(True, False, False, True, False), (True, False, False, True, False)]]],
      [[[(True, True, False, False, False), (True, True, False, False, True)],
        [(True, True, False, True, False), (True, True, False, True, True)]],
       [[(True, True, True, False, False), (True, True, True, False, False)],
        [(True, True, True, True, False), (True, True, True, True, False)]]]]]"

definition idx :: "bool \<Rightarrow> nat" where
  "idx flag = (if flag then 1 else 0)"

text \<open>The entry selected by \<open>DrawTriangleFunctions[shading][texture][raw_texture][transparent][dithering]\<close>.\<close>

definition TriangleFunction :: "bool \<Rightarrow> bool \<Rightarrow> bool \<Rightarrow> bool \<Rightarrow> bool \<Rightarrow> bool \<times> bool \<times> bool \<times> bool \<times> bool" where
  "TriangleFunction shading texture raw_texture transparent dithering =
    DrawTriangleFunctions ! idx shading ! idx texture ! idx raw_texture ! idx transparent
      ! idx dithering"

definition spec_dithering :: "bool \<times> bool \<times> bool \<times> bool \<times> bool \<Rightarrow> bool" where
  "spec_dithering e = snd (snd (snd (snd e)))"

section \<open>Reference notions and sample inputs\<close>

text \<open>
  Rounding a quotient away from zero, as the specification words it: the sign of the
  numerator times the quotient of the magnitude, rounded up.
\<close>

definition round_away :: "int \<Rightarrow> int \<Rightarrow> int" where
  "round_away n d = sgn n * ((\<bar>n\<bar> + (d - 1)) div d)"

text \<open>
  The colour channels of a VRAM word (\<open>mbbbbbgg gggrrrrr\<close>), as the pixel shader extracts
  them: \<open>c & 0x1F\<close>, \<open>(c >> 5) & 0x1F\<close>, \<open>(c >> 10) & 0x1F\<close>.
\<close>

definition chan_r :: "u16 \<Rightarrow> nat" where
  "chan_r w = unat (w AND 0x1F)"

definition chan_g :: "u16 \<Rightarrow> nat" where
  "chan_g w = unat (drop_bit 5 w AND 0x1F)"

definition chan_b :: "u16 \<Rightarrow> nat" where
  "chan_b w = unat (drop_bit 10 w AND 0x1F)"

text \<open>
  A natural number as three 5-bit fields and the rest: \<open>digit k x\<close> is the field that starts
  at bit \<open>k\<close>, and \<open>pack r g b m\<close> puts four parts together (parts of 32 or more carry over).
\<close>

definition digit :: "nat \<Rightarrow> nat \<Rightarrow> nat" where
  "digit k x = take_bit 5 (drop_bit k x)"

definition pack :: "nat \<Rightarrow> nat \<Rightarrow> nat \<Rightarrow> nat \<Rightarrow> nat" where
  "pack r g b m = r + 32 * (g + 32 * (b + 32 * m))"

text \<open>
  The computation that \<open>MakePolyXFPStep\<close> and \<open>LineDivide\<close> share once the numerator is
  shifted: adjust by the divisor minus one, away from zero, then divide.
\<close>

definition adj_div :: "s64 \<Rightarrow> s32 \<Rightarrow> s64" where
  "adj_div n0 d =
    (let n1 = (if n0 <s 0 then n0 - scast (d - 1) else n0);
         n2 = (if 0 <s n1 then n1 + scast (d - 1) else n1)
     in word_sdiv n2 (scast d))"



text \<open>
  The states of VRAM that pixel-shader invocations of an untextured primitive reach from
  \<open>vram\<close> when every invocation uses the colour \<open>(r, g, b)\<close>.
\<close>

inductive_set flat_shaded ::
  "bool \<Rightarrow> bool \<Rightarrow> DitherLUT \<Rightarrow> 'a GPUBackendDrawCommand_scheme \<Rightarrow> u8 \<Rightarrow> u8 \<Rightarrow> u8 \<Rightarrow> vram \<Rightarrow> vram set"
  for tr :: bool and di :: bool and lut :: DitherLUT and cmd :: "'a GPUBackendDrawCommand_scheme"
    and r :: u8 and g :: u8 and b :: u8 and vram :: vram
  where
    flat_none: "vram \<in> flat_shaded tr di lut cmd r g b vram"
  | flat_pixel: "vr \<in> flat_shaded tr di lut cmd r g b vram \<Longrightarrow>
                 ShadePixel False False tr di lut cmd x y r g b 0 0 vr
                   \<in> flat_shaded tr di lut cmd r g b vram"

text \<open>
  Sample inputs for evaluation. The sample dither table is the undithered reduction of an
  8-bit value to 5 bits, for every dither position.
\<close>

definition sample_lut :: DitherLUT where
  "sample_lut dither_y dither_x val = word_of_nat (min 31 (val div 8))"

definition sample_cmd :: GPUBackendDrawCommand where
  "sample_cmd =
    \<lparr>window_and_x = 0xFF, window_and_y = 0xFF, window_or_x = 0, window_or_y = 0,
     texture_mode = Direct16Bit, transparency_mode = HalfBackgroundPlusHalfForeground,
     GetTexturePageBaseX = 0, GetTexturePageBaseY = 0, GetXBase = 0, GetYBase = 0,
     interlaced_rendering = False, active_line_lsb = 0, GetMaskAND = 0, GetMaskOR = 0\<rparr>"

definition sample_vram :: vram where
  "sample_vram a = (if a = 0 then 0 else 0x7FFF)"

definition sample_area :: GPUDrawingArea where
  "sample_area = \<lparr>da_left = 0, da_top = 0, da_right = 1023, da_bottom = 511\<rparr>"

definition small_area :: GPUDrawingArea where
  "small_area = \<lparr>da_left = 0, da_top = 0, da_right = 10, da_bottom = 10\<rparr>"

definition masked_cmd :: GPUBackendDrawCommand where
  "masked_cmd = sample_cmd\<lparr>GetMaskAND := 0x8000\<rparr>"

definition masked_sprite :: GPUBackendDrawSpriteCommand where
  "masked_sprite =
    \<lparr>window_and_x = 0xFF, window_and_y = 0xFF, window_or_x = 0, window_or_y = 0,
     texture_mode = Direct16Bit, transparency_mode = HalfBackgroundPlusHalfForeground,
     GetTexturePageBaseX = 0, GetTexturePageBaseY = 0, GetXBase = 0, GetYBase = 0,
     interlaced_rendering = False, active_line_lsb = 0, GetMaskAND = 0x8000, GetMaskOR = 0,
     spr_x = 0, spr_y = 0, spr_width = 2, spr_height = 2, spr_color = 0, spr_texcoord = 0\<rparr>"

definition masked_vram :: vram where
  "masked_vram a = 0xFFFF"

definition sample_line_vertex :: "s32 \<Rightarrow> s32 \<Rightarrow> u8 \<Rightarrow> LineVertex" where
  "sample_line_vertex x y c = \<lparr>l_x = x, l_y = y, l_r = c, l_g = c, l_b = c\<rparr>"

definition sample_vertex :: "s32 \<Rightarrow> s32 \<Rightarrow> Vertex" where
  "sample_vertex x y = \<lparr>v_x = x, v_y = y, v_r = 0, v_g = 0, v_b = 0, v_u = 0, v_v = 0\<rparr>"




section \<open>Properties of the pixel shader\<close>

text \<open>
  C3 (texel-zero discard): a textured pixel-shader invocation whose sampled texel, after the
  texture window and the palette indirection, is \<open>0x0000\<close> leaves VRAM unchanged, whatever
  the raw-texture, transparency and dithering flags, the blend mode, the mask parameters and
  the modulation colour are.
\<close>

theorem texel_zero_discard:
  "SampleTexture cmd vram texcoord_x texcoord_y = 0 \<Longrightarrow>
   ShadePixel True raw_texture_enable transparency_enable dithering_enable
     lut cmd x y color_r color_g color_b texcoord_x texcoord_y vram = vram"
  by (simp add: ShadePixel_def)


theorem texel_zero_discard_witness:
  "SampleTexture sample_cmd sample_vram 0 0 = 0 \<and>
   ShadePixel True False True False sample_lut sample_cmd 5 5 255 255 255 0 0 sample_vram
     = sample_vram"
proof -
  have h: "SampleTexture sample_cmd sample_vram 0 0 = 0"
    by (simp add: SampleTexture_def sample_cmd_def sample_vram_def GetPixel_def VRAM_WIDTH_def
        VRAM_HEIGHT_def)
  show ?thesis using h texel_zero_discard [OF h] by simp
qed


section \<open>Packed 5-bit fields\<close>

lemma digit_and: "digit i (x AND y) = digit i x AND digit i y"
  and digit_or: "digit i (x OR y) = digit i x OR digit i y"
  and digit_xor: "digit i (x XOR y) = digit i x XOR digit i y"
  by (simp_all add: digit_def)

lemma digit_less: "digit i x < 32"
  by (simp add: digit_def take_bit_eq_mod)

lemma div32_step: "(a + 32 * y) div 32 = a div 32 + (y :: nat)"
  by simp

lemma mod32_step: "(a + 32 * y) mod 32 = a mod (32 :: nat)"
  by simp

lemma digits_pack:
  "digit 0 (pack a b c d) = a mod 32"
  "digit 5 (pack a b c d) = (a div 32 + b) mod 32"
  "digit 10 (pack a b c d) = ((a div 32 + b) div 32 + c) mod 32"
  "drop_bit 15 (pack a b c d) = ((a div 32 + b) div 32 + c) div 32 + d"
proof -
  have e1: "pack a b c d div 32 = (a div 32 + b) + 32 * (c + 32 * d)"
    unfolding pack_def div32_step by (simp only: add.assoc)
  have e2: "pack a b c d div 1024 = ((a div 32 + b) div 32 + c) + 32 * d"
  proof -
    have "pack a b c d div 1024 = (pack a b c d div 32) div 32"
      by (simp add: div_mult2_eq)
    also have "\<dots> = ((a div 32 + b) div 32 + c) + 32 * d"
      unfolding e1 div32_step by (simp only: add.assoc)
    finally show ?thesis .
  qed
  have e3: "pack a b c d div 32768 = ((a div 32 + b) div 32 + c) div 32 + d"
  proof -
    have "pack a b c d div 32768 = (pack a b c d div 1024) div 32"
      by (simp add: div_mult2_eq)
    also have "\<dots> = ((a div 32 + b) div 32 + c) div 32 + d"
      unfolding e2 div32_step ..
    finally show ?thesis .
  qed
  have "digit 0 (pack a b c d) = pack a b c d mod 32"
    by (simp add: digit_def take_bit_eq_mod)
  then show "digit 0 (pack a b c d) = a mod 32"
    unfolding pack_def mod32_step .
  have "digit 5 (pack a b c d) = (pack a b c d div 32) mod 32"
    by (simp add: digit_def take_bit_eq_mod drop_bit_eq_div)
  then show "digit 5 (pack a b c d) = (a div 32 + b) mod 32"
    unfolding e1 mod32_step .
  have "digit 10 (pack a b c d) = (pack a b c d div 1024) mod 32"
    by (simp add: digit_def take_bit_eq_mod drop_bit_eq_div)
  then show "digit 10 (pack a b c d) = ((a div 32 + b) div 32 + c) mod 32"
    unfolding e2 mod32_step .
  show "drop_bit 15 (pack a b c d) = ((a div 32 + b) div 32 + c) div 32 + d"
    by (simp add: drop_bit_eq_div e3)
qed

lemma digits_pack_small:
  assumes "a < 32" "b < 32" "c < 32"
  shows "digit 0 (pack a b c d) = a" "digit 5 (pack a b c d) = b" "digit 10 (pack a b c d) = c"
    "drop_bit 15 (pack a b c d) = d"
  using assms by (simp_all add: digits_pack)

lemma pack_digits: "pack (digit 0 x) (digit 5 x) (digit 10 x) (drop_bit 15 x) = x"
proof -
  have "x div 1024 = x div 32 div 32" "x div 32768 = x div 32 div 32 div 32"
    by (simp_all add: div_mult2_eq)
  then show ?thesis
    by (simp add: digit_def pack_def take_bit_eq_mod drop_bit_eq_div)
qed

lemma pack_and:
  assumes "a < 32" "b < 32" "c < 32" "a' < 32" "b' < 32" "c' < 32"
  shows "pack a b c d AND pack a' b' c' d' = pack (a AND a') (b AND b') (c AND c') (d AND d')"
  using pack_digits [of "pack a b c d AND pack a' b' c' d'"]
  unfolding digit_and drop_bit_and digits_pack_small [OF assms(1-3)] digits_pack_small [OF assms(4-6)]
  by simp

lemma pack_or:
  assumes "a < 32" "b < 32" "c < 32" "a' < 32" "b' < 32" "c' < 32"
  shows "pack a b c d OR pack a' b' c' d' = pack (a OR a') (b OR b') (c OR c') (d OR d')"
  using pack_digits [of "pack a b c d OR pack a' b' c' d'"]
  unfolding digit_or drop_bit_or digits_pack_small [OF assms(1-3)] digits_pack_small [OF assms(4-6)]
  by simp

lemma pack_xor:
  assumes "a < 32" "b < 32" "c < 32" "a' < 32" "b' < 32" "c' < 32"
  shows "pack a b c d XOR pack a' b' c' d' = pack (a XOR a') (b XOR b') (c XOR c') (d XOR d')"
  using pack_digits [of "pack a b c d XOR pack a' b' c' d'"]
  unfolding digit_xor drop_bit_xor digits_pack_small [OF assms(1-3)] digits_pack_small [OF assms(4-6)]
  by simp

lemma pack_norm:
  "pack a b c d = pack (a mod 32) ((a div 32 + b) mod 32) (((a div 32 + b) div 32 + c) mod 32)
                    (((a div 32 + b) div 32 + c) div 32 + d)"
  using pack_digits [of "pack a b c d"] unfolding digits_pack by simp

lemma xor_and_1: "(a XOR b) AND (1 :: nat) = (a + b) mod 2"
  by (simp add: and_one_eq mod_2_eq_odd even_xor_iff)

lemma or_31: "x < 32 \<Longrightarrow> x OR (31 :: nat) = 31"
proof -
  assume "x < 32"
  then have x: "take_bit 5 x = x" by (simp add: take_bit_nat_eq_self)
  have "take_bit 5 x OR mask 5 = (mask 5 :: nat)"
    by (rule bit_eqI) (auto simp: bit_simps)
  then show ?thesis unfolding x by (simp add: mask_eq_exp_minus_1)
qed

lemma and_31: "x < 32 \<Longrightarrow> x AND (31 :: nat) = x"
proof -
  assume "x < 32"
  then have "take_bit 5 x = x" by (simp add: take_bit_nat_eq_self)
  then show ?thesis by (simp add: take_bit_eq_mask mask_eq_exp_minus_1)
qed

section \<open>The blend formulas on fields\<close>

lemma xor_less_32: "a < 32 \<Longrightarrow> b < 32 \<Longrightarrow> a XOR b < (32 :: nat)"
proof -
  assume "a < 32" "b < 32"
  then have "take_bit 5 a = a" "take_bit 5 b = b" by (simp_all add: take_bit_nat_eq_self)
  then have e: "a XOR b = take_bit 5 (a XOR b)" by (simp add: take_bit_xor)
  have "take_bit 5 (a XOR b) < 2 ^ 5" by (rule take_bit_nat_less_exp)
  then show ?thesis using e by simp
qed

lemma chan_carry:
  fixes s c :: nat
  assumes "c \<le> 1"
  shows "(c + (s - s mod 2)) mod 2 = c"
    and "(c + (s - s mod 2)) div 32 = s div 32"
    and "(s - s mod 2) div 32 = s div 32"
proof -
  have e: "s - s mod 2 = 2 * (s div 2)" by (simp add: minus_mod_eq_mult_div)
  show "(c + (s - s mod 2)) mod 2 = c" unfolding e using assms by simp
  have h: "(c + 2 * (s div 2)) div 2 = s div 2" using assms by simp
  have "(c + 2 * (s div 2)) div 32 = ((c + 2 * (s div 2)) div 2) div 16"
    by (simp add: div_mult2_eq)
  also have "\<dots> = s div 32" unfolding h by (simp add: div_mult2_eq)
  finally show "(c + (s - s mod 2)) div 32 = s div 32" unfolding e .
  have "(2 * (s div 2)) div 32 = ((2 * (s div 2)) div 2) div 16"
    by (simp only: div_mult2_eq [symmetric]) simp
  also have "\<dots> = s div 32" by (simp add: div_mult2_eq)
  finally show "(s - s mod 2) div 32 = s div 32" unfolding e .
qed

lemma carry_flag: "f < 32 \<Longrightarrow> b < 32 \<Longrightarrow> (f + b) div 32 \<le> (1 :: nat)"
proof -
  assume "f < 32" "b < 32"
  then have "f + b < 2 * 32" by simp
  then have "(f + b) div 32 < 2" by (rule less_mult_imp_div_less)
  then show ?thesis by simp
qed

lemma sat_or:
  fixes f b :: nat
  assumes "f < 32" "b < 32"
  shows "((f + b) mod 32) OR (31 * ((f + b) div 32)) = min 31 (f + b)"
proof (cases "f + b < 32")
  case True
  then show ?thesis by simp
next
  case False
  then have "32 * 1 \<le> f + b" "f + b < 32 * Suc 1" using assms by simp_all
  then have "(f + b) div 32 = 1" by (rule div_nat_eqI)
  then show ?thesis using False by (simp add: or_31)
qed

lemma pack_diff:
  assumes "a' \<le> a" "b' \<le> b" "c' \<le> c" "d' \<le> d"
  shows "pack a b c d - pack a' b' c' d' = pack (a - a') (b - b') (c - c') (d - d')"
    and "pack a' b' c' d' \<le> pack a b c d"
proof -
  have "pack (a - a') (b - b') (c - c') (d - d') + pack a' b' c' d'
          = pack (a - a' + a') (b - b' + b') (c - c' + c') (d - d' + d')"
    by (simp add: pack_def)
  then have e: "pack (a - a') (b - b') (c - c') (d - d') + pack a' b' c' d' = pack a b c d"
    using assms by simp
  show "pack a b c d - pack a' b' c' d' = pack (a - a') (b - b') (c - c') (d - d')"
    unfolding e [symmetric] by simp
  show "pack a' b' c' d' \<le> pack a b c d"
    unfolding e [symmetric] by simp
qed

lemma pack_shift: "pack 0 a b c = pack (32 * a) (32 * b) (32 * c) 0"
  by (simp add: pack_def)

lemma add_blend_nat:
  fixes fr fg fb fm br bg bb :: nat
  assumes f: "fr < 32" "fg < 32" "fb < 32" and m: "fm < 2" and b: "br < 32" "bg < 32" "bb < 32"
  defines "F \<equiv> pack fr fg fb fm" and "B \<equiv> pack br bg bb 0"
  defines "X \<equiv> (F XOR B) AND 0x8421"
  defines "carry \<equiv> (F + B - X) AND 0x8420"
  shows "X \<le> F + B" and "carry \<le> F + B" and "drop_bit 5 carry \<le> carry"
    and "(F + B - carry) OR (carry - drop_bit 5 carry)
           = pack (min 31 (fr + br)) (min 31 (fg + bg)) (min 31 (fb + bb)) fm"
proof -
  let ?xr = "(fr + br) mod 2" and ?xg = "(fg + bg) mod 2" and ?xb = "(fb + bb) mod 2"
  define tr tg tb where "tr = fr + br - ?xr" and "tg = fg + bg - ?xg" and "tb = fb + bb - ?xb"
  let ?or = "(fr + br) div 32" and ?og = "(fg + bg) div 32" and ?ob = "(fb + bb) div 32"
  let ?sr = "(fr + br) mod 32" and ?sg = "(fg + bg) mod 32" and ?sb = "(fb + bb) mod 32"
  have o1: "?or \<le> 1" "?og \<le> 1" "?ob \<le> 1" using f b by (simp_all add: carry_flag)
  have sum: "F + B = pack (fr + br) (fg + bg) (fb + bb) fm"
    by (simp add: F_def B_def pack_def)
  have c1: "(0x8421 :: nat) = pack 1 1 1 1" and c2: "(0x8420 :: nat) = pack 0 1 1 1"
    by (simp_all add: pack_def)
  have fm1: "fm mod 2 = fm" using m by simp
  have x2: "(u XOR v) mod 2 = (u + v) mod 2" for u v :: nat
    by (simp add: mod_2_eq_odd even_xor_iff)
  have x: "X = pack ?xr ?xg ?xb fm"
    unfolding X_def F_def B_def c1 pack_xor [OF f b]
    using f b by (simp add: pack_and xor_less_32 x2 fm1)
  have xle: "?xr \<le> fr + br" "?xg \<le> fg + bg" "?xb \<le> fb + bb"
    by (rule mod_less_eq_dividend)+
  show xs: "X \<le> F + B"
    unfolding x sum using xle by (intro pack_diff(2)) simp_all
  have t: "F + B - X = pack tr tg tb 0"
    unfolding x sum tr_def tg_def tb_def using xle by (simp add: pack_diff(1))
  have tn: "pack tr tg tb 0 =
      pack (tr mod 32) ((tr div 32 + tg) mod 32) (((tr div 32 + tg) div 32 + tb) mod 32)
        (((tr div 32 + tg) div 32 + tb) div 32 + 0)"
    by (rule pack_norm)
  have and1: "y mod 32 mod 2 = y mod 2" for y :: nat
    by (simp add: mod_mod_cancel)
  have tr32: "tr div 32 = ?or" unfolding tr_def by (rule chan_carry(3) [of 0]) simp
  have d1: "(tr div 32 + tg) mod 2 = ?or"
    unfolding tr32 tg_def using o1(1) by (rule chan_carry(1))
  have q1: "(tr div 32 + tg) div 32 = ?og"
    unfolding tr32 tg_def using o1(1) by (rule chan_carry(2))
  have d2: "(?og + tb) mod 2 = ?og"
    unfolding tb_def using o1(2) by (rule chan_carry(1))
  have q2: "(?og + tb) div 32 = ?ob"
    unfolding tb_def using o1(2) by (rule chan_carry(2))
  have ob1: "?ob mod 2 = ?ob" using o1(3) by simp
  have cy: "carry = pack 0 ?or ?og ?ob"
    unfolding carry_def t tn c2
    by (simp add: pack_and and1 d1 q1 d2 q2 ob1)
  have e: "fr + br = ?sr + 32 * ?or" "fg + bg = ?sg + 32 * ?og" "fb + bb = ?sb + 32 * ?ob"
    by simp_all
  have le32: "32 * ?or \<le> fr + br" "32 * ?og \<le> fg + bg" "32 * ?ob \<le> fb + bb"
    by simp_all
  have df: "fr + br - 32 * ?or = ?sr" "fg + bg - 32 * ?og = ?sg" "fb + bb - 32 * ?ob = ?sb"
    by (simp_all add: minus_mult_div_eq_mod)
  show "carry \<le> F + B"
    unfolding cy sum pack_shift using le32 by (intro pack_diff(2)) simp_all
  have s': "F + B - carry = pack ?sr ?sg ?sb fm"
    unfolding cy sum pack_shift using le32 by (simp add: pack_diff(1) df)
  have c5: "drop_bit 5 carry = pack ?or ?og ?ob 0"
    unfolding cy by (simp add: drop_bit_eq_div pack_def)
  have cs: "carry = pack (32 * ?or) (32 * ?og) (32 * ?ob) 0"
    unfolding cy by (rule pack_shift)
  show "drop_bit 5 carry \<le> carry"
    unfolding c5 by (subst cs) (intro pack_diff(2); simp)
  have mm: "carry - drop_bit 5 carry = pack (31 * ?or) (31 * ?og) (31 * ?ob) 0"
    unfolding c5 by (subst cs) (simp add: pack_diff(1))
  have bnd: "?sr < 32" "?sg < 32" "?sb < 32" "31 * ?or < 32" "31 * ?og < 32" "31 * ?ob < 32"
    using o1 by simp_all
  show "(F + B - carry) OR (carry - drop_bit 5 carry)
           = pack (min 31 (fr + br)) (min 31 (fg + bg)) (min 31 (fb + bb)) fm"
    unfolding s' mm pack_or [OF bnd]
    using sat_or [OF f(1) b(1)] sat_or [OF f(2) b(2)] sat_or [OF f(3) b(3)] by simp
qed

lemma borrow_flag: "f < 32 \<Longrightarrow> b < 32 \<Longrightarrow> (b + 32 - f) div 32 \<le> (1 :: nat)"
proof -
  assume "f < 32" "b < 32"
  then have "b + 32 - f < 2 * 32" by simp
  then have "(b + 32 - f) div 32 < 2" by (rule less_mult_imp_div_less)
  then show ?thesis by simp
qed

lemma sat_and:
  fixes f b :: nat
  assumes "f < 32" "b < 32"
  shows "((b + 32 - f) mod 32) AND (31 * ((b + 32 - f) div 32)) = b - f"
proof (cases "f \<le> b")
  case True
  then have "32 * 1 \<le> b + 32 - f" "b + 32 - f < 32 * Suc 1" using assms by simp_all
  then have d: "(b + 32 - f) div 32 = 1" by (rule div_nat_eqI)
  have "b + 32 - f = (b - f) + 32 * 1" using True by simp
  then have "(b + 32 - f) mod 32 = (b - f) mod 32" by (simp only: mod32_step)
  then have m: "(b + 32 - f) mod 32 = b - f" using assms by simp
  show ?thesis unfolding d m using assms by (simp add: and_31)
next
  case False
  then have "b + 32 - f < 32" by simp
  then show ?thesis using False by simp
qed

lemma sub_blend_nat:
  fixes fr fg fb br bg bb :: nat
  assumes f: "fr < 32" "fg < 32" "fb < 32" and b: "br < 32" "bg < 32" "bb < 32"
  defines "B \<equiv> pack br bg bb 1" and "F \<equiv> pack fr fg fb 0"
  defines "diff \<equiv> B + 0x108420 - F"
  defines "M \<equiv> (B XOR F) AND 0x108420"
  defines "borrow \<equiv> (diff - M) AND 0x108420"
  shows "F \<le> B + 0x108420" and "M \<le> diff" and "borrow \<le> diff"
    and "drop_bit 5 borrow \<le> borrow"
    and "(diff - borrow) AND (borrow - drop_bit 5 borrow) = pack (br - fr) (bg - fg) (bb - fb) 1"
proof -
  define ur ug ub where "ur = br + 32 - fr" and "ug = bg + 32 - fg" and "ub = bb + 32 - fb"
  define vg vb where "vg = ug - ug mod 2" and "vb = ub - ub mod 2"
  let ?nr = "ur div 32" and ?ng = "ug div 32" and ?nb = "ub div 32"
  have n1: "?nr \<le> 1" "?ng \<le> 1" "?nb \<le> 1"
    unfolding ur_def ug_def ub_def using f b by (simp_all add: borrow_flag)
  have c1: "(0x108420 :: nat) = pack 32 32 32 32" and c2: "(0x108420 :: nat) = pack 0 1 1 33"
    by (simp_all add: pack_def)
  have bc: "B + 0x108420 = pack (br + 32) (bg + 32) (bb + 32) 33"
    unfolding c1 by (simp add: B_def pack_def)
  show "F \<le> B + 0x108420"
    unfolding bc F_def using f by (intro pack_diff(2)) simp_all
  have d: "diff = pack ur ug ub 33"
    unfolding diff_def bc F_def ur_def ug_def ub_def using f by (simp add: pack_diff(1))
  have x2: "(u XOR v) mod 2 = (u + v) mod 2" for u v :: nat
    by (simp add: mod_2_eq_odd even_xor_iff)
  have par: "(bg + fg) mod 2 = ug mod 2" "(bb + fb) mod 2 = ub mod 2"
    unfolding ug_def ub_def using f by (simp_all add: mod_2_eq_odd)
  have m: "M = pack 0 (ug mod 2) (ub mod 2) 1"
    unfolding M_def B_def F_def pack_xor [OF b f]
    by (subst c2) (use f b in \<open>simp add: pack_and xor_less_32 x2 par\<close>)
  have mle: "ug mod 2 \<le> ug" "ub mod 2 \<le> ub" by (rule mod_less_eq_dividend)+
  show "M \<le> diff"
    unfolding m d using mle by (intro pack_diff(2)) simp_all
  have t: "diff - M = pack ur vg vb 32"
    unfolding m d vg_def vb_def using mle by (simp add: pack_diff(1))
  have tn: "pack ur vg vb 32 =
      pack (ur mod 32) ((ur div 32 + vg) mod 32) (((ur div 32 + vg) div 32 + vb) mod 32)
        (((ur div 32 + vg) div 32 + vb) div 32 + 32)"
    by (rule pack_norm)
  have and1: "y mod 32 mod 2 = y mod 2" for y :: nat
    by (simp add: mod_mod_cancel)
  have d1: "(ur div 32 + vg) mod 2 = ?nr"
    unfolding vg_def using n1(1) by (rule chan_carry(1))
  have q1: "(ur div 32 + vg) div 32 = ?ng"
    unfolding vg_def using n1(1) by (rule chan_carry(2))
  have d2: "(?ng + vb) mod 2 = ?ng"
    unfolding vb_def using n1(2) by (rule chan_carry(1))
  have q2: "(?ng + vb) div 32 = ?nb"
    unfolding vb_def using n1(2) by (rule chan_carry(2))
  have top: "(?nb + 32) AND 33 = ?nb + 32"
  proof -
    from n1(3) consider "?nb = 0" | "?nb = 1" by linarith
    then show ?thesis by cases simp_all
  qed
  have bw: "borrow = pack 0 ?nr ?ng (?nb + 32)"
    unfolding borrow_def t tn
    by (subst c2) (simp add: pack_and and1 d1 q1 d2 q2 top)
  have bs: "borrow = pack (32 * ?nr) (32 * ?ng) (32 * ?nb) 32"
    unfolding bw by (simp add: pack_def)
  have le32: "32 * ?nr \<le> ur" "32 * ?ng \<le> ug" "32 * ?nb \<le> ub"
    by simp_all
  have df: "ur - 32 * ?nr = ur mod 32" "ug - 32 * ?ng = ug mod 32" "ub - 32 * ?nb = ub mod 32"
    by (simp_all add: minus_mult_div_eq_mod)
  show "borrow \<le> diff"
    unfolding bs d using le32 by (intro pack_diff(2)) simp_all
  have s': "diff - borrow = pack (ur mod 32) (ug mod 32) (ub mod 32) 1"
    unfolding bs d using le32 by (simp add: pack_diff(1) df)
  have b5: "drop_bit 5 borrow = pack ?nr ?ng ?nb 1"
    unfolding bw by (simp add: drop_bit_eq_div pack_def)
  show "drop_bit 5 borrow \<le> borrow"
    unfolding b5 by (subst bs) (intro pack_diff(2); simp)
  have mm: "borrow - drop_bit 5 borrow = pack (31 * ?nr) (31 * ?ng) (31 * ?nb) 31"
    unfolding b5 by (subst bs) (simp add: pack_diff(1))
  have bnd: "ur mod 32 < 32" "ug mod 32 < 32" "ub mod 32 < 32"
    "31 * ?nr < 32" "31 * ?ng < 32" "31 * ?nb < 32"
    using n1 by simp_all
  have one: "(1 :: nat) AND 31 = 1" by simp
  show "(diff - borrow) AND (borrow - drop_bit 5 borrow) = pack (br - fr) (bg - fg) (bb - fb) 1"
    unfolding s' mm pack_and [OF bnd] one
    unfolding ur_def ug_def ub_def
    using sat_and [OF f(1) b(1)] sat_and [OF f(2) b(2)] sat_and [OF f(3) b(3)] by simp
qed

section \<open>Blending on words\<close>

lemma and_1F: "(w :: 16 word) AND 0x1F = take_bit 5 w"
  by (simp add: take_bit_eq_mask mask_eq_exp_minus_1)

lemma unat16_less: "unat (w :: 16 word) < 65536"
  using unsigned_less [of w] by simp

lemma take_bit_unat16: "take_bit 16 (unat (w :: 16 word)) = unat w"
  "take_bit 32 (unat (w :: 16 word)) = unat w"
  using unat16_less [of w] by (simp_all add: take_bit_nat_eq_self)

lemma chan_digit:
  "chan_r w = digit 0 (unat w)" "chan_g w = digit 5 (unat w)" "chan_b w = digit 10 (unat w)"
  by (simp_all add: chan_r_def chan_g_def chan_b_def and_1F digit_def unsigned_take_bit_eq
      unsigned_drop_bit_eq take_bit_unat16)

lemma clear_top_bit:
  "take_bit (Suc k) x AND NOT (push_bit k 1) = take_bit k (x :: 'a::len word)"
  by (rule bit_word_eqI) (auto simp: bit_simps less_Suc_eq)

lemma set_top_bit:
  "take_bit (Suc k) x OR push_bit k 1 = take_bit k (x :: 'a::len word) + push_bit k 1"
proof -
  have "take_bit k x AND push_bit k 1 = 0"
    by (rule bit_word_eqI) (auto simp: bit_simps)
  then have "take_bit k x + push_bit k 1 = take_bit k x OR push_bit k 1"
    by (rule disjunctive_add_eq_or)
  moreover have "take_bit (Suc k) x OR push_bit k 1 = take_bit k x OR push_bit k 1"
    by (rule bit_word_eqI) (auto simp: bit_simps less_Suc_eq)
  ultimately show ?thesis by simp
qed

lemma ucast16_take: "take_bit (Suc 15) (ucast (w :: 16 word) :: 32 word) = ucast w"
  by (rule bit_word_eqI) (auto simp: bit_simps dest: bit_imp_le_length)

lemma clear_bit15: "(ucast (w :: 16 word) :: 32 word) AND NOT 0x8000 = take_bit 15 (ucast w)"
  using clear_top_bit [of 15 "ucast w :: 32 word"] unfolding ucast16_take by simp

lemma set_bit15: "(ucast (w :: 16 word) :: 32 word) OR 0x8000 = take_bit 15 (ucast w) + 0x8000"
  using set_top_bit [of 15 "ucast w :: 32 word"] unfolding ucast16_take by simp

lemma digit_take_bit_15:
  "digit 0 (take_bit 15 x) = digit 0 x" "digit 5 (take_bit 15 x) = digit 5 x"
  "digit 10 (take_bit 15 x) = digit 10 x" "drop_bit 15 (take_bit 15 x) = (0 :: nat)"
  by (simp_all add: digit_def drop_bit_take_bit)

lemma unat_low15:
  "unat (take_bit 15 (ucast (w :: 16 word) :: 32 word)) = pack (chan_r w) (chan_g w) (chan_b w) 0"
  unfolding chan_digit
  using pack_digits [of "take_bit 15 (unat w)"]
  by (simp add: unsigned_take_bit_eq digit_take_bit_15 unsigned_ucast_eq take_bit_unat16)

lemma pack_less:
  assumes "a < 32" "b < 32" "c < 32" "d < 2"
  shows "pack a b c d < 65536"
proof -
  have "pack a b c d \<le> pack 31 31 31 1" using assms by (intro pack_diff(2)) simp_all
  then show ?thesis by (simp add: pack_def)
qed

lemma chan_less: "chan_r w < 32" "chan_g w < 32" "chan_b w < 32"
  unfolding chan_digit by (rule digit_less)+

lemma unat_clear_bit15:
  "unat ((ucast (w :: 16 word) :: 32 word) AND NOT 0x8000) = pack (chan_r w) (chan_g w) (chan_b w) 0"
  unfolding clear_bit15 by (rule unat_low15)

lemma unat_set_bit15:
  "unat ((ucast (w :: 16 word) :: 32 word) OR 0x8000) = pack (chan_r w) (chan_g w) (chan_b w) 1"
proof -
  have "pack (chan_r w) (chan_g w) (chan_b w) 0 < 65536"
    using chan_less by (intro pack_less) simp_all
  then have "unat (take_bit 15 (ucast w :: 32 word) + 0x8000) = pack (chan_r w) (chan_g w) (chan_b w) 0 + 32768"
    unfolding unat_low15 [symmetric] by (simp add: unat_add_lem [THEN iffD1])
  then show ?thesis unfolding set_bit15 by (simp add: pack_def)
qed

lemma hi_bit: "drop_bit 15 (unat (w :: 16 word)) < 2"
proof -
  have "unat w < 2 * 2 ^ 15" using unat16_less [of w] by simp
  then have "unat w div 2 ^ 15 < 2" by (rule less_mult_imp_div_less)
  then show ?thesis by (simp add: drop_bit_eq_div)
qed

lemma unat_ucast_16_32:
  "unat (ucast (w :: 16 word) :: 32 word)
     = pack (chan_r w) (chan_g w) (chan_b w) (drop_bit 15 (unat w))"
  unfolding chan_digit pack_digits by (simp add: unsigned_ucast_eq take_bit_unat16)

lemma unat32_add: "unat a + unat b < 4294967296 \<Longrightarrow> unat (a + b :: 32 word) = unat a + unat b"
  using unat_add_lem [of a b] by simp

lemma unat32_sub: "unat b \<le> unat a \<Longrightarrow> unat (a - b :: 32 word) = unat a - unat b"
  by (rule unat_sub) (simp add: word_le_nat_alt)

lemma unat32_drop: "unat (drop_bit n (w :: 32 word)) = drop_bit n (unat w)"
proof -
  have "unat w < 2 ^ 32" using unsigned_less [of w] by simp
  then have "take_bit 32 (unat w) = unat w" by (rule take_bit_nat_eq_self)
  then show ?thesis by (simp add: unsigned_drop_bit_eq)
qed

lemma unat16_ucast: "unat (w :: 32 word) < 65536 \<Longrightarrow> unat (ucast w :: 16 word) = unat w"
  by (simp add: unsigned_ucast_eq take_bit_nat_eq_self)

lemma Blend_add_unat:
  "unat (Blend BackgroundPlusForeground bg fg) =
     pack (min 31 (chan_r fg + chan_r bg)) (min 31 (chan_g fg + chan_g bg))
          (min 31 (chan_b fg + chan_b bg)) (drop_bit 15 (unat fg))"
proof -
  define F where "F = pack (chan_r fg) (chan_g fg) (chan_b fg) (drop_bit 15 (unat fg))"
  define B where "B = pack (chan_r bg) (chan_g bg) (chan_b bg) 0"
  define X where "X = (F XOR B) AND 0x8421"
  define carry where "carry = (F + B - X) AND 0x8420"
  define fw bw :: u32 where "fw = ucast fg" and "bw = ucast bg AND NOT 0x8000"
  define sw where "sw = fw + bw"
  define cw where "cw = (sw - ((fw XOR bw) AND 0x8421)) AND 0x8420"
  note n = add_blend_nat [OF chan_less [of fg] hi_bit [of fg] chan_less [of bg],
      folded F_def B_def, folded X_def, folded carry_def]
  have uf: "unat fw = F" unfolding fw_def F_def by (rule unat_ucast_16_32)
  have ub: "unat bw = B" unfolding bw_def B_def by (rule unat_clear_bit15)
  have lt: "F < 65536" "B < 65536"
    unfolding F_def B_def using chan_less hi_bit by (auto intro!: pack_less)
  have us: "unat sw = F + B"
    unfolding sw_def using lt by (simp add: unat32_add uf ub)
  have ux: "unat ((fw XOR bw) AND 0x8421) = X"
    unfolding X_def by (simp add: unsigned_and_eq unsigned_xor_eq uf ub)
  have ut: "unat (sw - ((fw XOR bw) AND 0x8421)) = F + B - X"
    using n(1) by (simp add: unat32_sub us ux)
  have uc: "unat cw = carry"
    unfolding cw_def carry_def by (simp add: unsigned_and_eq ut)
  have u1: "unat (sw - cw) = F + B - carry"
    using n(2) by (simp add: unat32_sub us uc)
  have u2: "unat (drop_bit 5 cw) = drop_bit 5 carry"
    by (simp add: unat32_drop uc)
  have u3: "unat (cw - drop_bit 5 cw) = carry - drop_bit 5 carry"
    using n(3) by (simp add: unat32_sub u2 uc)
  have u4: "unat ((sw - cw) OR (cw - drop_bit 5 cw)) =
      pack (min 31 (chan_r fg + chan_r bg)) (min 31 (chan_g fg + chan_g bg))
        (min 31 (chan_b fg + chan_b bg)) (drop_bit 15 (unat fg))"
    by (simp add: unsigned_or_eq u1 u3 n(4))
  have "pack (min 31 (chan_r fg + chan_r bg)) (min 31 (chan_g fg + chan_g bg))
        (min 31 (chan_b fg + chan_b bg)) (drop_bit 15 (unat fg)) < 65536"
    using hi_bit [of fg] by (intro pack_less) simp_all
  then have "unat (ucast ((sw - cw) OR (cw - drop_bit 5 cw)) :: 16 word) =
      pack (min 31 (chan_r fg + chan_r bg)) (min 31 (chan_g fg + chan_g bg))
        (min 31 (chan_b fg + chan_b bg)) (drop_bit 15 (unat fg))"
    unfolding u4 [symmetric] by (rule unat16_ucast)
  moreover have "Blend BackgroundPlusForeground bg fg = ucast ((sw - cw) OR (cw - drop_bit 5 cw))"
    by (simp add: Let_def cw_def sw_def fw_def bw_def)
  ultimately show ?thesis by simp
qed

lemma Blend_sub_unat:
  "unat (Blend BackgroundMinusForeground bg fg) =
     pack (chan_r bg - chan_r fg) (chan_g bg - chan_g fg) (chan_b bg - chan_b fg) 1"
proof -
  define B where "B = pack (chan_r bg) (chan_g bg) (chan_b bg) 1"
  define F where "F = pack (chan_r fg) (chan_g fg) (chan_b fg) 0"
  define diff where "diff = B + 0x108420 - F"
  define M where "M = (B XOR F) AND 0x108420"
  define borrow where "borrow = (diff - M) AND 0x108420"
  define fw bw :: u32 where "fw = ucast fg AND NOT 0x8000" and "bw = ucast bg OR 0x8000"
  define dw where "dw = bw - fw + 0x108420"
  define rw where "rw = (dw - ((bw XOR fw) AND 0x108420)) AND 0x108420"
  note n = sub_blend_nat [OF chan_less [of fg] chan_less [of bg],
      folded F_def B_def, folded diff_def M_def, folded borrow_def]
  have uf: "unat fw = F" unfolding fw_def F_def by (rule unat_clear_bit15)
  have ub: "unat bw = B" unfolding bw_def B_def by (rule unat_set_bit15)
  have lt: "F < 65536" "B < 65536"
    unfolding F_def B_def using chan_less by (auto intro!: pack_less)
  have dw': "dw = (bw + 0x108420) - fw" unfolding dw_def by simp
  have ubc: "unat (bw + 0x108420) = B + 0x108420"
    using lt by (simp add: unat32_add ub)
  have ud: "unat dw = diff"
    unfolding dw' diff_def using n(1) by (simp add: unat32_sub ubc uf)
  have um: "unat ((bw XOR fw) AND 0x108420) = M"
    unfolding M_def by (simp add: unsigned_and_eq unsigned_xor_eq uf ub)
  have ut: "unat (dw - ((bw XOR fw) AND 0x108420)) = diff - M"
    using n(2) by (simp add: unat32_sub ud um)
  have ur: "unat rw = borrow"
    unfolding rw_def borrow_def by (simp add: unsigned_and_eq ut)
  have u1: "unat (dw - rw) = diff - borrow"
    using n(3) by (simp add: unat32_sub ud ur)
  have u2: "unat (drop_bit 5 rw) = drop_bit 5 borrow"
    by (simp add: unat32_drop ur)
  have u3: "unat (rw - drop_bit 5 rw) = borrow - drop_bit 5 borrow"
    using n(4) by (simp add: unat32_sub u2 ur)
  have u4: "unat ((dw - rw) AND (rw - drop_bit 5 rw)) =
      pack (chan_r bg - chan_r fg) (chan_g bg - chan_g fg) (chan_b bg - chan_b fg) 1"
    by (simp add: unsigned_and_eq u1 u3 n(5))
  have "pack (chan_r bg - chan_r fg) (chan_g bg - chan_g fg) (chan_b bg - chan_b fg) 1 < 65536"
    using chan_less [of bg] by (intro pack_less) (simp_all add: less_imp_diff_less)
  then have "unat (ucast ((dw - rw) AND (rw - drop_bit 5 rw)) :: 16 word) =
      pack (chan_r bg - chan_r fg) (chan_g bg - chan_g fg) (chan_b bg - chan_b fg) 1"
    unfolding u4 [symmetric] by (rule unat16_ucast)
  moreover have "Blend BackgroundMinusForeground bg fg = ucast ((dw - rw) AND (rw - drop_bit 5 rw))"
    by (simp add: Let_def rw_def dw_def fw_def bw_def)
  ultimately show ?thesis by simp
qed

text \<open>
  C7 (blend saturation): for all 16-bit background and foreground words, each of the three
  5-bit channels of the Add blend is \<open>min(31, fg + bg)\<close> of that channel, and each channel of
  the Sub blend is \<open>max(0, bg - fg)\<close>; no channel overflows into its neighbour or underflows.
\<close>

theorem blend_saturation:
  "chan_r (Blend BackgroundPlusForeground bg fg) = min 31 (chan_r fg + chan_r bg) \<and>
   chan_g (Blend BackgroundPlusForeground bg fg) = min 31 (chan_g fg + chan_g bg) \<and>
   chan_b (Blend BackgroundPlusForeground bg fg) = min 31 (chan_b fg + chan_b bg) \<and>
   int (chan_r (Blend BackgroundMinusForeground bg fg))
     = max 0 (int (chan_r bg) - int (chan_r fg)) \<and>
   int (chan_g (Blend BackgroundMinusForeground bg fg))
     = max 0 (int (chan_g bg) - int (chan_g fg)) \<and>
   int (chan_b (Blend BackgroundMinusForeground bg fg))
     = max 0 (int (chan_b bg) - int (chan_b fg))"
proof -
  have s: "chan_r bg - chan_r fg < 32" "chan_g bg - chan_g fg < 32" "chan_b bg - chan_b fg < 32"
    using chan_less [of bg] by (simp_all add: less_imp_diff_less)
  have m: "int (x - y) = max 0 (int x - int y)" for x y :: nat
    by (simp add: max_def)
  have "chan_r (Blend BackgroundMinusForeground bg fg) = chan_r bg - chan_r fg"
    "chan_g (Blend BackgroundMinusForeground bg fg) = chan_g bg - chan_g fg"
    "chan_b (Blend BackgroundMinusForeground bg fg) = chan_b bg - chan_b fg"
    unfolding chan_digit Blend_sub_unat using s by (simp_all add: digits_pack_small chan_digit)
  moreover have "chan_r (Blend BackgroundPlusForeground bg fg) = min 31 (chan_r fg + chan_r bg)"
    "chan_g (Blend BackgroundPlusForeground bg fg) = min 31 (chan_g fg + chan_g bg)"
    "chan_b (Blend BackgroundPlusForeground bg fg) = min 31 (chan_b fg + chan_b bg)"
    unfolding chan_digit Blend_add_unat by (simp_all add: digits_pack_small chan_digit)
  ultimately show ?thesis by (simp only: m)
qed

lemma take_bit_15_pack: "take_bit 15 x = pack (digit 0 x) (digit 5 x) (digit 10 x) 0"
  using pack_digits [of "take_bit 15 x"] by (simp add: digit_take_bit_15)

lemma and_7FFF: "(w :: 16 word) AND 0x7FFF = take_bit 15 w"
  by (simp add: take_bit_eq_mask mask_eq_exp_minus_1)

lemma unat_rgb15: "unat ((w :: 16 word) AND 0x7FFF) = pack (chan_r w) (chan_g w) (chan_b w) 0"
  unfolding and_7FFF chan_digit by (simp add: unsigned_take_bit_eq take_bit_15_pack [symmetric])

text \<open>
  C8 (add-blend commutativity): for the Add blend and all words \<open>a\<close> and \<open>b\<close>, the results
  of blending \<open>a\<close> with \<open>b\<close> and \<open>b\<close> with \<open>a\<close> agree on bits 0 to 14.
\<close>

theorem add_blend_commutes:
  "Blend BackgroundPlusForeground a b AND 0x7FFF = Blend BackgroundPlusForeground b a AND 0x7FFF"
proof -
  have "unat (Blend BackgroundPlusForeground a b AND 0x7FFF)
          = unat (Blend BackgroundPlusForeground b a AND 0x7FFF)"
    unfolding unat_rgb15 chan_digit Blend_add_unat
    by (simp add: digits_pack_small chan_digit add.commute)
  then show ?thesis by (simp only: word_unat_eq_iff)
qed

section \<open>Frame properties of the pixel shader\<close>

lemma ShadePixel_cases:
  "ShadePixel tx raw tr di lut cmd x y r g b u v vram = vram \<or>
   (GetPixel vram x y AND GetMaskAND cmd = 0 \<and>
    (\<exists>c. ShadePixel tx raw tr di lut cmd x y r g b u v vram = SetPixel x y c vram))"
  by (auto simp: ShadePixel_def Let_def)

lemma ShadePixel_other:
  "a \<noteq> VRAM_WIDTH * y + x \<Longrightarrow> ShadePixel tx raw tr di lut cmd x y r g b u v vram a = vram a"
  using ShadePixel_cases [of tx raw tr di lut cmd x y r g b u v vram]
  by (auto simp: SetPixel_def)

lemma ShadePixel_masked:
  "vram a AND GetMaskAND cmd \<noteq> 0 \<Longrightarrow> ShadePixel tx raw tr di lut cmd x y r g b u v vram a = vram a"
  using ShadePixel_cases [of tx raw tr di lut cmd x y r g b u v vram]
  by (auto simp: SetPixel_def GetPixel_def)

section \<open>Invariants of the rasterizer loops\<close>

text \<open>
  Each rasterizer only changes VRAM through \<open>ShadePixel\<close>: a property of VRAM that every
  pixel-shader invocation of the command preserves is preserved by the whole draw. For
  rectangles and lines the invocations are moreover inside the drawing area.
\<close>

lemma fold_invariant:
  "(\<And>i s. i \<in> set xs \<Longrightarrow> P s \<Longrightarrow> P (f i s)) \<Longrightarrow> P s \<Longrightarrow> P (fold f xs s)"
  by (induction xs arbitrary: s) auto

lemma DrawRectangle_invariant:
  assumes step: "\<And>x y r g b u v vr. in_drawing_area da x y \<Longrightarrow> \<not> interlace_skip cmd y \<Longrightarrow> P vr \<Longrightarrow>
                   P (ShadePixel tx raw tr False lut cmd x y r g b u v vr)"
    and init: "P vram"
  shows "P (DrawRectangle tx raw tr lut da cmd vram)"
proof -
  have pixel: "P (DrawRectangle_pixel tx raw tr lut da cmd y tcy ox vr)"
    if "P vr" "da_top da \<le>s y" "y \<le>s da_bottom da" "\<not> interlace_skip cmd y" for y tcy ox vr
    using that step
    by (auto simp: DrawRectangle_pixel_def Let_def in_drawing_area_def word_sless_alt word_sle_eq
        split: prod.splits)
  have row: "P (DrawRectangle_row tx raw tr lut da cmd oy vr)" if "P vr" for oy vr
    using that
    by (auto simp: DrawRectangle_row_def Let_def word_sless_alt word_sle_eq split: prod.splits
        intro!: fold_invariant [where P = P] pixel)
  show ?thesis unfolding DrawRectangle_def using init by (auto intro!: fold_invariant [where P = P] row)
qed

lemma DrawLine_cases:
  "DrawLine sh tr di lut da cmd a0 a1 vram = vram \<or>
   (\<exists>p0 step n cur. DrawLine sh tr di lut da cmd a0 a1 vram =
       DrawLine_loop sh tr di lut da cmd p0 step n cur vram)"
proof (cases "MAX_PRIMITIVE_WIDTH \<le> word_abs (l_x a1 - l_x a0) \<or>
              MAX_PRIMITIVE_HEIGHT \<le> word_abs (l_y a1 - l_y a0)")
  case True
  then have "DrawLine sh tr di lut da cmd a0 a1 vram = vram"
    unfolding DrawLine_def Let_def by (simp only: if_True)
  then show ?thesis by (rule disjI1)
next
  case False
  show ?thesis
    apply (rule disjI2)
    unfolding DrawLine_def Let_def split_def
    apply (simp only: False if_False)
    apply (intro exI)
    apply (rule refl)
    done
qed

lemma DrawLine_loop_invariant:
  "(\<And>x y r g b u v vr. in_drawing_area da x y \<Longrightarrow> \<not> interlace_skip cmd y \<Longrightarrow> P vr \<Longrightarrow>
       P (ShadePixel False False tr di lut cmd x y r g b u v vr)) \<Longrightarrow>
   P vram \<Longrightarrow> P (DrawLine_loop sh tr di lut da cmd p0 step n cur vram)"
proof (induction n arbitrary: cur vram)
  case 0
  then show ?case by simp
next
  case (Suc n)
  have v1: "P (if \<not> interlace_skip cmd y \<and> in_drawing_area da x y
               then ShadePixel False False tr di lut cmd x y r g b 0 0 vram else vram)"
    for x y r g b
    using Suc.prems by simp
  show ?case unfolding DrawLine_loop.simps Let_def
    by (rule Suc.IH) (rule Suc.prems(1), assumption+, rule v1)
qed

lemma DrawLine_invariant:
  assumes step: "\<And>x y r g b u v vr. in_drawing_area da x y \<Longrightarrow> \<not> interlace_skip cmd y \<Longrightarrow> P vr \<Longrightarrow>
                   P (ShadePixel False False tr di lut cmd x y r g b u v vr)"
    and init: "P vram"
  shows "P (DrawLine sh tr di lut da cmd a0 a1 vram)"
  using DrawLine_cases [of sh tr di lut da cmd a0 a1 vram]
proof (elim disjE exE)
  assume "DrawLine sh tr di lut da cmd a0 a1 vram = vram"
  then show ?thesis using init by simp
next
  fix p0 step' n cur
  assume e: "DrawLine sh tr di lut da cmd a0 a1 vram = DrawLine_loop sh tr di lut da cmd p0 step' n cur vram"
  show ?thesis unfolding e using step init by (rule DrawLine_loop_invariant [where P = P])
qed

lemma DrawSpan_loop_last:
  "\<not> 0 <s w - 1 \<Longrightarrow>
   DrawSpan_loop sh tx raw tr di lut cmd idl y w x ig vram =
   ShadePixel tx raw tr di lut cmd x y
     (ucast (drop_bit (COORD_FBS + COORD_POST_PADDING) (ig_r ig)))
     (ucast (drop_bit (COORD_FBS + COORD_POST_PADDING) (ig_g ig)))
     (ucast (drop_bit (COORD_FBS + COORD_POST_PADDING) (ig_b ig)))
     (ucast (drop_bit (COORD_FBS + COORD_POST_PADDING) (ig_u ig)))
     (ucast (drop_bit (COORD_FBS + COORD_POST_PADDING) (ig_v ig))) vram"
  by (subst DrawSpan_loop.simps) (simp add: Let_def)

lemma DrawSpan_loop_more:
  "0 <s w - 1 \<Longrightarrow>
   DrawSpan_loop sh tx raw tr di lut cmd idl y w x ig vram =
   DrawSpan_loop sh tx raw tr di lut cmd idl y (w - 1) (x + 1) (AddIDeltas_DX sh tx ig idl 1)
    (ShadePixel tx raw tr di lut cmd x y
     (ucast (drop_bit (COORD_FBS + COORD_POST_PADDING) (ig_r ig)))
     (ucast (drop_bit (COORD_FBS + COORD_POST_PADDING) (ig_g ig)))
     (ucast (drop_bit (COORD_FBS + COORD_POST_PADDING) (ig_b ig)))
     (ucast (drop_bit (COORD_FBS + COORD_POST_PADDING) (ig_u ig)))
     (ucast (drop_bit (COORD_FBS + COORD_POST_PADDING) (ig_v ig))) vram)"
  by (subst DrawSpan_loop.simps) (simp add: Let_def)

lemma sint32_dec: "0 < sint (w :: 32 word) \<Longrightarrow> sint (w - 1) = sint w - 1"
  using sint_lt [of w] by (simp add: sint_word_ariths signed_take_bit_int_eq_self)

lemma DrawSpan_loop_invariant:
  "nat (sint w) = Suc n \<Longrightarrow>
   (\<And>i r g b u v vr. i \<le> n \<Longrightarrow> P vr \<Longrightarrow>
       P (ShadePixel tx raw tr di lut cmd (x + of_nat i) y r g b u v vr)) \<Longrightarrow>
   P vram \<Longrightarrow> P (DrawSpan_loop sh tx raw tr di lut cmd idl y w x ig vram)"
proof (induction n arbitrary: w x ig vram)
  case 0
  then have "sint w = 1" by simp
  then have "sint (w - 1) = 0" using sint32_dec [of w] by simp
  then have last: "\<not> 0 <s w - 1" by (simp add: word_sless_alt)
  have "P (ShadePixel tx raw tr di lut cmd (x + of_nat 0) y r g b u v vram)" for r g b u v
    using "0.prems"(3) by (intro "0.prems"(2)) simp_all
  then show ?case unfolding DrawSpan_loop_last [OF last] by simp
next
  case (Suc n)
  then have w: "sint w = int n + 2" by simp
  then have w1: "sint (w - 1) = int n + 1" using sint32_dec [of w] by simp
  then have pos: "0 <s w - 1" by (simp add: word_sless_alt)
  have p1: "P (ShadePixel tx raw tr di lut cmd x y r g b u v vram)" for r g b u v
  proof -
    have "P (ShadePixel tx raw tr di lut cmd (x + of_nat 0) y r g b u v vram)"
      using Suc.prems(3) by (intro Suc.prems(2)) simp_all
    then show ?thesis by simp
  qed
  show ?case unfolding DrawSpan_loop_more [OF pos]
  proof (rule Suc.IH)
    show "nat (sint (w - 1)) = Suc n" using w1 by simp
    show "P (ShadePixel tx raw tr di lut cmd x y r g b u v vram)" for r g b u v by (rule p1)
    fix i r g b u v vr
    assume i: "i \<le> n" and vr: "P vr"
    have "P (ShadePixel tx raw tr di lut cmd (x + of_nat (Suc i)) y r g b u v vr)"
      using i vr by (intro Suc.prems(2)) simp_all
    then show "P (ShadePixel tx raw tr di lut cmd (x + 1 + of_nat i) y r g b u v vr)"
      by (simp add: add.assoc)
  qed
qed


lemma DrawSpan_any:
  assumes step: "\<And>x y r g b u v vr. P vr \<Longrightarrow> P (ShadePixel tx raw tr di lut cmd x y r g b u v vr)"
    and init: "P vram"
  shows "P (DrawSpan sh tx raw tr di lut da cmd y x_start x_bound ig idl vram)"
proof -
  have loop: "P (DrawSpan_loop sh tx raw tr di lut cmd idl y w x ig' vram)" if "\<not> w \<le>s 0" for w x ig'
  proof -
    from that have "0 < sint w" by (simp add: word_sle_eq)
    then obtain n where "nat (sint w) = Suc n" by (cases "nat (sint w)") auto
    then show ?thesis using step init by (rule DrawSpan_loop_invariant [where P = P])
  qed
  show ?thesis unfolding DrawSpan_def Let_def
    using init loop by (simp split: prod.splits)
qed

lemma DrawHalf_dec_any:
  "(\<And>x y r g b u v vr. P vr \<Longrightarrow> P (ShadePixel tx raw tr di lut cmd x y r g b u v vr)) \<Longrightarrow>
   P vram \<Longrightarrow> P (DrawHalf_dec sh tx raw tr di lut da cmd ig idl yb ls rs yi lc rc vram)"
proof (induction sh tx raw tr di lut da cmd ig idl yb ls rs yi lc rc vram rule: DrawHalf_dec.induct)
  case (1 sh tx raw tr di lut da cmd ig idl yb ls rs yi lc rc vram)
  have span: "P (DrawSpan sh tx raw tr di lut da cmd y xs xb ig idl vram)" for y xs xb
    using "1.prems" by (rule DrawSpan_any [where P = P])
  show ?case
    apply (subst DrawHalf_dec.simps)
    using 1 span by (simp add: Let_def)
qed

lemma DrawHalf_inc_any:
  "(\<And>x y r g b u v vr. P vr \<Longrightarrow> P (ShadePixel tx raw tr di lut cmd x y r g b u v vr)) \<Longrightarrow>
   P vram \<Longrightarrow> P (DrawHalf_inc sh tx raw tr di lut da cmd ig idl yb ls rs yi lc rc vram)"
proof (induction sh tx raw tr di lut da cmd ig idl yb ls rs yi lc rc vram rule: DrawHalf_inc.induct)
  case (1 sh tx raw tr di lut da cmd ig idl yb ls rs yi lc rc vram)
  have span: "P (DrawSpan sh tx raw tr di lut da cmd y xs xb ig idl vram)" for y xs xb
    using "1.prems" by (rule DrawSpan_any [where P = P])
  show ?case
    apply (subst DrawHalf_inc.simps)
    using 1 span by (simp add: Let_def)
qed

lemma DrawTriangle_cases:
  "DrawTriangle sh tx raw tr di lut da cmd a0 a1 a2 vram = vram \<or>
   (\<exists>ig idl tps. DrawTriangle sh tx raw tr di lut da cmd a0 a1 a2 vram =
       fold (DrawHalf sh tx raw tr di lut da cmd ig idl) tps vram)"
  unfolding DrawTriangle_def Let_def
  by (auto split: prod.splits option.splits)

lemma DrawTriangle_any:
  assumes step: "\<And>x y r g b u v vr. P vr \<Longrightarrow> P (ShadePixel tx raw tr di lut cmd x y r g b u v vr)"
    and init: "P vram"
  shows "P (DrawTriangle sh tx raw tr di lut da cmd a0 a1 a2 vram)"
proof -
  have half: "P (DrawHalf sh tx raw tr di lut da cmd ig idl tp vr)" if "P vr" for ig idl tp vr
    unfolding DrawHalf_def Let_def using that step
    by (simp add: DrawHalf_dec_any [where P = P] DrawHalf_inc_any [where P = P])
  have "P (fold (DrawHalf sh tx raw tr di lut da cmd ig idl) tps vram)" for ig idl tps
    using init by (rule fold_invariant [where P = P, rotated]) (rule half)
  then show ?thesis using DrawTriangle_cases [of sh tx raw tr di lut da cmd a0 a1 a2 vram] init
    by auto
qed

section \<open>Mask test\<close>

text \<open>
  C1 (mask-bit monotonicity): for a rectangle, a triangle and a line, and for every word of
  VRAM, if the word has a bit of \<open>mask_and\<close> set before the draw, then it has the
  same value after the draw.
\<close>

theorem mask_bit_monotonicity:
  "(vram a AND GetMaskAND scmd \<noteq> 0 \<longrightarrow>
      DrawRectangle tx raw tr lut da scmd vram a = vram a) \<and>
   (vram a AND GetMaskAND cmd \<noteq> 0 \<longrightarrow>
      DrawTriangle sh tx raw tr di lut da cmd a0 a1 a2 vram a = vram a) \<and>
   (vram a AND GetMaskAND cmd \<noteq> 0 \<longrightarrow>
      DrawLine sh tr di lut da cmd p0 p1 vram a = vram a)"
proof (intro conjI impI)
  assume m: "vram a AND GetMaskAND scmd \<noteq> 0"
  show "DrawRectangle tx raw tr lut da scmd vram a = vram a"
    by (rule DrawRectangle_invariant [where P = "\<lambda>vr. vr a = vram a"])
       (simp_all add: ShadePixel_masked m)
next
  assume m: "vram a AND GetMaskAND cmd \<noteq> 0"
  show "DrawTriangle sh tx raw tr di lut da cmd a0 a1 a2 vram a = vram a"
    by (rule DrawTriangle_any [where P = "\<lambda>vr. vr a = vram a"])
       (simp_all add: ShadePixel_masked m)
next
  assume m: "vram a AND GetMaskAND cmd \<noteq> 0"
  show "DrawLine sh tr di lut da cmd p0 p1 vram a = vram a"
    by (rule DrawLine_invariant [where P = "\<lambda>vr. vr a = vram a"])
       (simp_all add: ShadePixel_masked m)
qed

theorem mask_bit_monotonicity_witness:
  "(masked_vram 0 AND GetMaskAND masked_sprite \<noteq> 0 \<and>
    masked_vram 0 AND GetMaskAND masked_cmd \<noteq> 0) \<and>
   DrawRectangle False False False sample_lut sample_area masked_sprite masked_vram 0
     = masked_vram 0 \<and>
   DrawTriangle True False False False True sample_lut sample_area masked_cmd
     (sample_vertex 0 0) (sample_vertex 4 0) (sample_vertex 0 4) masked_vram 0
     = masked_vram 0 \<and>
   DrawLine True False True sample_lut sample_area masked_cmd
     (sample_line_vertex 0 0 255) (sample_line_vertex 3 0 255) masked_vram 0 = masked_vram 0"
  using mask_bit_monotonicity [of masked_vram 0 masked_sprite False False False sample_lut
      sample_area masked_cmd True True "sample_vertex 0 0" "sample_vertex 4 0"
      "sample_vertex 0 4" "sample_line_vertex 0 0 255" "sample_line_vertex 3 0 255"]
  by (simp add: masked_vram_def masked_sprite_def masked_cmd_def sample_cmd_def)

section \<open>Signed word arithmetic\<close>

lemma sint64_eq: "- (2 ^ 63) \<le> k \<Longrightarrow> k < 2 ^ 63 \<Longrightarrow> sint (word_of_int k :: 64 word) = k"
  using signed_take_bit_int_eq_self [of 63 k] by (simp add: signed_of_int)

lemma sint32_eq: "- (2 ^ 31) \<le> k \<Longrightarrow> k < 2 ^ 31 \<Longrightarrow> sint (word_of_int k :: 32 word) = k"
  using signed_take_bit_int_eq_self [of 31 k] by (simp add: signed_of_int)

lemma sint64_add: "- (2 ^ 63) \<le> sint a + sint b \<Longrightarrow> sint a + sint b < 2 ^ 63 \<Longrightarrow>
  sint (a + b :: 64 word) = sint a + sint b"
  by (simp add: sint_word_ariths signed_take_bit_int_eq_self)

lemma sint64_sub: "- (2 ^ 63) \<le> sint a - sint b \<Longrightarrow> sint a - sint b < 2 ^ 63 \<Longrightarrow>
  sint (a - b :: 64 word) = sint a - sint b"
  by (simp add: sint_word_ariths signed_take_bit_int_eq_self)


lemma sint32_sub: "- (2 ^ 31) \<le> sint a - sint b \<Longrightarrow> sint a - sint b < 2 ^ 31 \<Longrightarrow>
  sint (a - b :: 32 word) = sint a - sint b"
  by (simp add: sint_word_ariths signed_take_bit_int_eq_self)

lemma sint_scast_32_64: "sint (scast (a :: 32 word) :: 64 word) = sint a"
  by (simp add: sint_up_scast is_up)

lemma sint32_bounds: "- (2 ^ 31) \<le> sint (a :: 32 word)" "sint (a :: 32 word) < 2 ^ 31"
  using sint_ge [of a] sint_lt [of a] by simp_all

lemma sint64_bounds: "- (2 ^ 63) \<le> sint (a :: 64 word)" "sint (a :: 64 word) < 2 ^ 63"
  using sint_ge [of a] sint_lt [of a] by simp_all

lemma sint_shl32: "- (2 ^ 31) \<le> sint (a :: 64 word) \<Longrightarrow> sint a < 2 ^ 31 \<Longrightarrow>
   sint (push_bit 32 a) = sint a * 2 ^ 32"
proof -
  assume a: "- (2 ^ 31) \<le> sint a" "sint a < 2 ^ 31"
  have "push_bit 32 a = word_of_int (sint a * 2 ^ 32)"
    by (simp add: push_bit_eq_mult)
  moreover have "- (2 ^ 63) \<le> sint a * 2 ^ 32" "sint a * 2 ^ 32 < 2 ^ 63"
    using a by simp_all
  ultimately show ?thesis by (simp only: sint64_eq)
qed

lemma sint64_sdiv: "- (2 ^ 63) < sint a \<Longrightarrow> sint (word_sdiv a b :: 64 word) = sint a sdiv sint b"
proof -
  assume a: "- (2 ^ 63) < sint a"
  have "sint a sdiv sint b \<in> {- \<bar>sint a\<bar>..\<bar>sint a\<bar>}" by (rule sdiv_int_range)
  then have "- (2 ^ 63) \<le> sint a sdiv sint b" "sint a sdiv sint b < 2 ^ 63"
    using a sint64_bounds [of a] by auto
  then show ?thesis unfolding word_sdiv_def by (rule sint64_eq)
qed

lemma sint32_sdiv: "- (2 ^ 31) < sint a \<Longrightarrow> sint (word_sdiv a b :: 32 word) = sint a sdiv sint b"
proof -
  assume a: "- (2 ^ 31) < sint a"
  have "sint a sdiv sint b \<in> {- \<bar>sint a\<bar>..\<bar>sint a\<bar>}" by (rule sdiv_int_range)
  then have "- (2 ^ 31) \<le> sint a sdiv sint b" "sint a sdiv sint b < 2 ^ 31"
    using a sint32_bounds [of a] by auto
  then show ?thesis unfolding word_sdiv_def by (rule sint32_eq)
qed

lemma sdiv_round_away:
  assumes d: "0 < d"
  shows "(if n < 0 then n - (d - 1) else if 0 < n then n + (d - 1) else n) sdiv d = round_away n d"
proof -
  consider "n < 0" | "n = 0" | "0 < n" by linarith
  then show ?thesis
  proof cases
    case 1
    then have "\<bar>n - (d - 1)\<bar> = \<bar>n\<bar> + (d - 1)" "sgn (n - (d - 1)) = -1" using d by auto
    then show ?thesis using 1 d by (simp add: signed_divide_int_def round_away_def)
  next
    case 2 then show ?thesis by (simp add: round_away_def)
  next
    case 3
    then have "\<bar>n + (d - 1)\<bar> = \<bar>n\<bar> + (d - 1)" "sgn (n + (d - 1)) = 1" using d by auto
    then show ?thesis using 3 d by (simp add: signed_divide_int_def round_away_def)
  qed
qed

lemma adj_div_sint:
  assumes d: "0 < sint d" and n: "\<bar>sint n0\<bar> \<le> 2 ^ 63 - 2 ^ 32"
  shows "sint (adj_div n0 d) = round_away (sint n0) (sint d)"
proof -
  have d1: "sint (scast (d - 1) :: 64 word) = sint d - 1"
    using d sint32_bounds [of d] by (simp add: sint_scast_32_64 sint32_sub)
  have dd: "sint (scast d :: 64 word) = sint d" by (simp add: sint_scast_32_64)
  have db: "sint d < 2 ^ 31" by (rule sint32_bounds)
  let ?n1 = "if n0 <s 0 then n0 - scast (d - 1) else n0"
  let ?n2 = "if 0 <s ?n1 then ?n1 + scast (d - 1) else ?n1"
  have s1: "sint ?n1 = (if sint n0 < 0 then sint n0 - (sint d - 1) else sint n0)"
    using n d db d1 by (simp add: word_sless_alt sint64_sub)
  have s2: "sint ?n2 = (if sint n0 < 0 then sint n0 - (sint d - 1) else if 0 < sint n0 then sint n0 + (sint d - 1) else sint n0)"
  proof (cases "sint n0 < 0")
    case True
    then have "\<not> 0 < sint ?n1" using s1 d by simp
    then show ?thesis using s1 True by (simp add: word_sless_alt)
  next
    case False
    then have e: "?n1 = n0" by (simp add: word_sless_alt)
    show ?thesis using False n d db d1 unfolding e by (simp add: word_sless_alt sint64_add)
  qed
  have "- (2 ^ 63) < sint ?n2" using s2 n d db by (auto split: if_splits)
  then have "sint (word_sdiv ?n2 (scast d :: 64 word)) = sint ?n2 sdiv sint d"
    by (simp only: sint64_sdiv dd)
  also have "\<dots> = round_away (sint n0) (sint d)"
    unfolding s2 using sdiv_round_away [OF d, of "sint n0"] by simp
  finally show ?thesis by (simp add: adj_div_def Let_def)
qed

lemma MakePolyXFPStep_adj: "MakePolyXFPStep dx dy = adj_div (push_bit 32 (scast dx)) dy"
  by (simp add: MakePolyXFPStep_def adj_div_def)

lemma LineDivide_adj: "LineDivide delta dk = adj_div (push_bit 32 delta) dk"
  by (simp add: LineDivide_def adj_div_def Line_XY_FractBits_def)

lemma MakePolyXFPStep_sint:
  assumes "0 < sint dy" "- (2 ^ 31) < sint dx"
  shows "sint (MakePolyXFPStep dx dy) = round_away (sint dx * 2 ^ 32) (sint dy)"
proof -
  have b: "sint (push_bit 32 (scast dx :: 64 word)) = sint dx * 2 ^ 32"
    using sint32_bounds [of dx] by (simp add: sint_shl32 sint_scast_32_64)
  have "\<bar>sint dx\<bar> \<le> 2 ^ 31 - 1" using assms(2) sint32_bounds [of dx] by simp
  then have "\<bar>sint dx\<bar> * 2 ^ 32 \<le> (2 ^ 31 - 1) * 2 ^ 32" by (rule mult_right_mono) simp
  then have "\<bar>sint dx * 2 ^ 32\<bar> \<le> 2 ^ 63 - 2 ^ 32" by (simp add: abs_mult)
  then show ?thesis unfolding MakePolyXFPStep_adj using adj_div_sint [OF assms(1), of "push_bit 32 (scast dx)"] b by simp
qed

lemma LineColorStep_sint:
  "sint (LineColorStep c1 c0 k) = ((uint c1 - uint c0) * 2 ^ 12) sdiv sint k"
proof -
  let ?n = "push_bit 12 ((ucast c1 :: 32 word) - ucast c0)"
  have u: "0 \<le> uint c1" "uint c1 < 256" "0 \<le> uint c0" "uint c0 < 256"
    using uint_lt2p [of c1] uint_lt2p [of c0] by simp_all
  have e: "?n = word_of_int ((uint c1 - uint c0) * 2 ^ 12)"
    by (simp add: push_bit_eq_mult)
  have d: "- 256 < uint c1 - uint c0" "uint c1 - uint c0 < 256" using u by linarith+
  then have r: "- (2 ^ 31) \<le> (uint c1 - uint c0) * 2 ^ 12" "(uint c1 - uint c0) * 2 ^ 12 < 2 ^ 31"
    by simp_all
  have s: "sint ?n = (uint c1 - uint c0) * 2 ^ 12"
    unfolding e using r by (rule sint32_eq)
  have "- (2 ^ 31) < sint ?n" unfolding s using d by simp
  then have "sint (word_sdiv ?n k) = sint ?n sdiv sint k" by (rule sint32_sdiv)
  then show ?thesis unfolding LineColorStep_def Line_RGB_FractBits_def s .
qed

lemma LineDivide_sint:
  assumes "0 < sint dk" "- (2 ^ 31) < sint delta" "sint delta < 2 ^ 31"
  shows "sint (LineDivide delta dk) = round_away (sint delta * 2 ^ 32) (sint dk)"
proof -
  have b: "sint (push_bit 32 delta) = sint delta * 2 ^ 32"
    using assms by (simp add: sint_shl32)
  have "\<bar>sint delta\<bar> \<le> 2 ^ 31 - 1" using assms by simp
  then have "\<bar>sint delta\<bar> * 2 ^ 32 \<le> (2 ^ 31 - 1) * 2 ^ 32" by (rule mult_right_mono) simp
  then have "\<bar>sint delta * 2 ^ 32\<bar> \<le> 2 ^ 63 - 2 ^ 32" by (simp add: abs_mult)
  then show ?thesis unfolding LineDivide_adj using adj_div_sint [OF assms(1), of "push_bit 32 delta"] b by simp
qed

lemma idelta_trunc:
  assumes "\<bar>sint num\<bar> < 2 ^ 19"
  shows "idelta num denom = push_bit 12 (word_of_int ((sint num * 2 ^ 12) sdiv sint denom))"
proof -
  have e: "num * push_bit 12 1 = word_of_int (sint num * 2 ^ 12)"
    by (simp add: push_bit_eq_mult)
  have "sint (num * push_bit 12 1) = sint num * 2 ^ 12"
  proof -
    have "- (2 ^ 31) \<le> sint num * 2 ^ 12" "sint num * 2 ^ 12 < 2 ^ 31"
      using assms by (simp_all add: abs_less_iff)
    then show ?thesis unfolding e by (rule sint32_eq)
  qed
  then show ?thesis by (simp add: idelta_def word_sdiv_def COORD_FBS_def COORD_POST_PADDING_def)
qed


section \<open>Fixed-point division\<close>

text \<open>
  C4 as stated fails for the colour steps of a line and the attribute gradients of a
  triangle: they divide without adjusting the numerator, so the quotient is truncated
  towards zero. \<open>(1 << 12) / 3\<close> is 1365, where rounding away from zero gives 1366.
\<close>

theorem division_truncates_counterexample:
  "LineColorStep 1 0 3 = 1365 \<and> idelta 1 3 = push_bit 12 1365 \<and> round_away (2 ^ 12) 3 = 1366"
  by (simp add: LineColorStep_def idelta_def word_sdiv_def Line_RGB_FractBits_def COORD_FBS_def
      COORD_POST_PADDING_def signed_divide_int_def round_away_def)

text \<open>
  C4, amended: the divisions for the triangle edge slopes (\<open>MakePolyXFPStep\<close>) and for the
  line position steps (\<open>LineDivide\<close>) round the quotient away from zero, by adjusting the
  numerator by plus or minus the divisor minus one; the divisions for the line colour steps
  and for the attribute gradients are plain truncating divisions (towards zero).
\<close>

theorem division_rounding:
  assumes "0 < sint dy" and "- (2 ^ 31) < sint dx"
    and "0 < sint dk" and "- (2 ^ 31) < sint delta" and "sint delta < 2 ^ 31"
    and "\<bar>sint num\<bar> < 2 ^ 19"
  shows "sint (MakePolyXFPStep dx dy) = round_away (sint dx * 2 ^ 32) (sint dy) \<and>
         sint (LineDivide delta dk) = round_away (sint delta * 2 ^ 32) (sint dk) \<and>
         sint (LineColorStep c1 c0 k) = ((uint c1 - uint c0) * 2 ^ 12) sdiv sint k \<and>
         idelta num denom = push_bit 12 (word_of_int ((sint num * 2 ^ 12) sdiv sint denom))"
  using MakePolyXFPStep_sint [OF assms(1,2)] LineDivide_sint [OF assms(3,4,5)]
    LineColorStep_sint [of c1 c0 k] idelta_trunc [OF assms(6)]
  by simp

theorem division_rounding_witness:
  "(0 < sint (3 :: s32) \<and> - (2 ^ 31) < sint (-1 :: s32) \<and> sint (1 :: s64) < 2 ^ 31 \<and>
    \<bar>sint (1 :: s32)\<bar> < 2 ^ 19) \<and>
   sint (MakePolyXFPStep (-1) 3) = - 1431655766 \<and>
   sint (LineDivide 1 3) = 1431655766 \<and>
   sint (LineColorStep 1 0 3) = 1365 \<and>
   idelta 1 3 = push_bit 12 1365"
  using division_rounding [of 3 "-1" 3 1 1 1 0 3 3]
  by (simp add: round_away_def signed_divide_int_def)

section \<open>Function-table dispatch\<close>

text \<open>
  C5 as stated fails: with texture off and raw texture off the table keeps the dithering
  flag, so the entry at \<open>dithering = true\<close> has dithering on, differs from the entry with
  raw texture on, and is not the specialisation with raw texture and dithering off.
\<close>

theorem triangle_dispatch_untextured_dither_counterexample:
  "spec_dithering (TriangleFunction False False False False True) \<and>
   TriangleFunction False False False False True \<noteq> TriangleFunction False False True False True \<and>
   TriangleFunction False False False False True \<noteq> (False, False, False, False, False)"
  by (simp add: TriangleFunction_def DrawTriangleFunctions_def idx_def spec_dithering_def)

text \<open>
  C5, amended: in \<open>DrawTriangleFunctions[shading][texture][raw_texture][transparent][dithering]\<close>
  an entry with raw texture on has dithering off, and with texture off it is moreover the
  specialisation with raw texture off; an entry with raw texture off keeps all five flags
  (dithering included, also when texture is off).
\<close>

theorem triangle_dispatch_collapse:
  "TriangleFunction shading False True transparent dithering
     = (shading, False, False, transparent, False) \<and>
   TriangleFunction shading True True transparent dithering
     = (shading, True, True, transparent, False) \<and>
   TriangleFunction shading texture False transparent dithering
     = (shading, texture, False, transparent, dithering) \<and>
   \<not> spec_dithering (TriangleFunction shading texture True transparent dithering)"
  by (cases shading; cases texture; cases transparent; cases dithering)
     (simp_all add: TriangleFunction_def DrawTriangleFunctions_def idx_def spec_dithering_def)

section \<open>Triangle vertex sort\<close>




section \<open>Lines\<close>

lemma push_bit_disjoint_1:
  "n < m \<Longrightarrow> push_bit m X AND (push_bit n 1 :: 'a::len word) = 0"
  by (rule bit_word_eqI) (auto simp: bit_simps)

lemma push_bit_disjoint_mask:
  "n + j \<le> m \<Longrightarrow> push_bit m X AND (push_bit n (mask j) :: 'a::len word) = 0"
  by (rule bit_word_eqI) (auto simp: bit_simps)

lemma sub_low_bits:
  "(push_bit 32 X OR push_bit 31 1 :: 64 word) - 1024 = push_bit 32 X OR push_bit 10 (mask 21)"
proof -
  have d1: "push_bit 32 X AND (push_bit 31 1 :: 64 word) = 0"
    by (rule push_bit_disjoint_1) simp
  have d2: "push_bit 32 X AND (push_bit 10 (mask 21) :: 64 word) = 0"
    by (rule push_bit_disjoint_mask) simp
  have c: "(push_bit 31 1 :: 64 word) - 1024 = push_bit 10 (mask 21)"
    by (simp add: mask_eq_exp_minus_1 push_bit_eq_mult)
  have "(push_bit 32 X OR push_bit 31 1 :: 64 word) - 1024 = (push_bit 32 X + push_bit 31 1) - 1024"
    by (simp only: disjunctive_add_eq_or [OF d1])
  also have "\<dots> = push_bit 32 X + (push_bit 31 1 - 1024)"
    by (simp only: add_diff_eq)
  also have "\<dots> = push_bit 32 X OR push_bit 10 (mask 21)"
    by (simp only: c disjunctive_add_eq_or [OF d2])
  finally show ?thesis .
qed

lemma and_2047_32: "(w :: 32 word) AND 2047 = take_bit 11 w"
  by (simp add: take_bit_eq_mask mask_eq_exp_minus_1)

lemma and_2047_64: "(w :: 64 word) AND 2047 = take_bit 11 w"
  by (simp add: take_bit_eq_mask mask_eq_exp_minus_1)

lemma line_coord:
  "(ucast (drop_bit 32 ((push_bit 32 (scast x :: 64 word) OR push_bit 31 1) - 1024) AND 2047) :: 32 word)
     = x AND 2047"
  unfolding sub_low_bits and_2047_32 and_2047_64
  by (rule bit_word_eqI) (auto simp: bit_simps)

lemma line_coord':
  "(ucast (drop_bit 32 (push_bit 32 (scast x :: 64 word) OR push_bit 31 1) AND 2047) :: 32 word)
     = x AND 2047"
  unfolding and_2047_32 and_2047_64
  by (rule bit_word_eqI) (auto simp: bit_simps)

lemma line_color:
  "(ucast (drop_bit 12 (push_bit 12 (ucast c :: 32 word) OR push_bit 11 1)) :: 8 word) = c"
  by (rule bit_word_eqI) (auto simp: bit_simps)


lemma line_coord_x:
  "(ucast (drop_bit 32 ((push_bit 32 (scast x :: 64 word) OR 2147483648) - 1024) AND 2047) :: 32 word)
     = x AND 2047"
  using line_coord [of x] by simp

lemma line_coord_y:
  "(ucast (drop_bit 32 (push_bit 32 (scast x :: 64 word)) AND 2047) :: 32 word) = x AND 2047"
  using line_coord' [of x] by simp

lemma line_color_id:
  "(ucast (drop_bit 12 (push_bit 12 (ucast c :: 32 word))) :: 8 word) = c"
  using line_color [of c] by simp

lemma word_abs_0: "word_abs (0 :: 32 word) = 0"
  by (simp add: word_abs_def)

lemma LineLength_same: "LineLength p p = 0"
  by (simp add: LineLength_def word_abs_0)

lemma LineStep_0: "LineStep sh p0 p1 0 = \<lparr>dx_dk = 0, dy_dk = 0, dr_dk = 0, dg_dk = 0, db_dk = 0\<rparr>"
  by (simp add: LineStep_def)

lemma DrawLine_same:
  "DrawLine sh tr di lut da cmd p p vram =
     DrawLine_loop sh tr di lut da cmd p (LineStep sh p p 0) (Suc 0) (LineStart sh p (LineStep sh p p 0)) vram"
  by (simp add: DrawLine_def LineLength_same word_abs_0 MAX_PRIMITIVE_WIDTH_def
      MAX_PRIMITIVE_HEIGHT_def Let_def del: DrawLine_loop.simps)

text \<open>
  C9, amended: a line whose two endpoints are equal runs the pixel shader at most once:
  once, at \<open>(x & 2047, y & 2047)\<close> of the endpoint and with its colour, when that position is
  inside the drawing area and its row is not skipped by interlacing, and not at all
  otherwise. No other word of VRAM changes.
\<close>

theorem degenerate_line:
  "DrawLine sh tr di lut da cmd p p vram =
     (if \<not> interlace_skip cmd (l_y p AND 2047) \<and>
         in_drawing_area da (l_x p AND 2047) (l_y p AND 2047)
      then ShadePixel False False tr di lut cmd (l_x p AND 2047) (l_y p AND 2047)
             (l_r p) (l_g p) (l_b p) 0 0 vram
      else vram) \<and>
   (a \<noteq> VRAM_WIDTH * (l_y p AND 2047) + (l_x p AND 2047) \<longrightarrow>
      DrawLine sh tr di lut da cmd p p vram a = vram a)"
proof -
  have e: "DrawLine sh tr di lut da cmd p p vram =
     (if \<not> interlace_skip cmd (l_y p AND 2047) \<and>
         in_drawing_area da (l_x p AND 2047) (l_y p AND 2047)
      then ShadePixel False False tr di lut cmd (l_x p AND 2047) (l_y p AND 2047)
             (l_r p) (l_g p) (l_b p) 0 0 vram
      else vram)"
    unfolding DrawLine_same LineStep_0
    by (simp add: LineStart_def Let_def Line_XY_FractBits_def Line_RGB_FractBits_def
        line_coord_x line_coord_y line_color_id)
  show ?thesis unfolding e by (simp add: ShadePixel_other)
qed

theorem degenerate_line_witness:
  "DrawLine False False False sample_lut small_area sample_cmd
     (sample_line_vertex 3 4 255) (sample_line_vertex 3 4 255) sample_vram
   = ShadePixel False False False False sample_lut sample_cmd 3 4 255 255 255 0 0 sample_vram \<and>
   DrawLine False False False sample_lut small_area sample_cmd
     (sample_line_vertex 3 4 255) (sample_line_vertex 3 4 255) sample_vram 0 = sample_vram 0"
  using degenerate_line [of False False False sample_lut small_area sample_cmd
      "sample_line_vertex 3 4 255" sample_vram 0]
  by (auto simp: sample_line_vertex_def small_area_def sample_cmd_def interlace_skip_def
      in_drawing_area_def word_sle_eq VRAM_WIDTH_def)

text \<open>
  C9 as stated fails: a line with equal endpoints outside the drawing area draws nothing.
  Here the endpoint is \<open>(20, 20)\<close> with colour 0 and the drawing area ends at 10: the pixel
  shader at \<open>(20, 20)\<close> would turn the word \<open>0x7FFF\<close> there into 0, and the line leaves
  VRAM as it was.
\<close>

theorem degenerate_line_outside_counterexample:
  "DrawLine False False False sample_lut small_area sample_cmd
     (sample_line_vertex 20 20 0) (sample_line_vertex 20 20 0) sample_vram = sample_vram \<and>
   GetPixel sample_vram 20 20 = 0x7FFF \<and>
   GetPixel (ShadePixel False False False False sample_lut sample_cmd 20 20 0 0 0 0 0 sample_vram)
     20 20 = 0"
proof -
  have "DrawLine False False False sample_lut small_area sample_cmd
     (sample_line_vertex 20 20 0) (sample_line_vertex 20 20 0) sample_vram = sample_vram"
    unfolding DrawLine_same LineStep_0
    by (simp add: LineStart_def Let_def Line_XY_FractBits_def Line_RGB_FractBits_def
        sample_line_vertex_def small_area_def in_drawing_area_def word_sle_eq word_sless_alt)
  then show ?thesis
    by (simp add: ShadePixel_def FlatColor_def sample_lut_def sample_cmd_def SetPixel_def
        GetPixel_def sample_vram_def VRAM_WIDTH_def Let_def)
qed

lemma DrawLine_loop_flat:
  "vr \<in> flat_shaded tr di lut cmd (l_r p) (l_g p) (l_b p) vram \<Longrightarrow>
   DrawLine_loop False tr di lut da cmd p step n cur vr
     \<in> flat_shaded tr di lut cmd (l_r p) (l_g p) (l_b p) vram"
proof (induction n arbitrary: cur vr)
  case 0
  then show ?case by simp
next
  case (Suc n)
  have h: "(if c then ShadePixel False False tr di lut cmd x y (l_r p) (l_g p) (l_b p) 0 0 vr else vr)
          \<in> flat_shaded tr di lut cmd (l_r p) (l_g p) (l_b p) vram" for c x y
    using Suc.prems by (simp add: flat_shaded.flat_pixel)
  show ?case unfolding DrawLine_loop.simps Let_def if_False
    by (rule Suc.IH) (rule h)
qed

text \<open>
  C10 (flat line colour): with shading off, distinct endpoints (\<open>k > 0\<close>) and
  \<open>p0.x >= p1.x\<close>, every pixel-shader invocation of the line uses the colour of \<open>p1\<close>, and
  the colour of \<open>p0\<close> has no effect on the result.
\<close>

theorem flat_line_color:
  assumes "l_x p1 \<le>s l_x p0" and "0 <s LineLength p0 p1"
  shows "DrawLine False tr di lut da cmd p0 p1 vram
           \<in> flat_shaded tr di lut cmd (l_r p1) (l_g p1) (l_b p1) vram \<and>
         DrawLine False tr di lut da cmd (p0\<lparr>l_r := r', l_g := g', l_b := b'\<rparr>) p1 vram
           = DrawLine False tr di lut da cmd p0 p1 vram"
proof
  have k: "LineLength p0 p1 \<noteq> 0" using assms(2) by auto
  show "DrawLine False tr di lut da cmd p0 p1 vram
           \<in> flat_shaded tr di lut cmd (l_r p1) (l_g p1) (l_b p1) vram"
    unfolding DrawLine_def Let_def using assms
    by (simp add: flat_shaded.flat_none DrawLine_loop_flat)
  have "LineLength (p0\<lparr>l_r := r', l_g := g', l_b := b'\<rparr>) p1 = LineLength p0 p1"
    by (simp add: LineLength_def)
  then show "DrawLine False tr di lut da cmd (p0\<lparr>l_r := r', l_g := g', l_b := b'\<rparr>) p1 vram
           = DrawLine False tr di lut da cmd p0 p1 vram"
    unfolding DrawLine_def Let_def using assms k
    by (simp add: LineStep_def)
qed

theorem flat_line_color_witness:
  "(l_x (sample_line_vertex 2 0 7) \<le>s l_x (sample_line_vertex 5 0 255) \<and>
    0 <s LineLength (sample_line_vertex 5 0 255) (sample_line_vertex 2 0 7)) \<and>
   DrawLine False False False sample_lut sample_area sample_cmd
     (sample_line_vertex 5 0 255) (sample_line_vertex 2 0 7) sample_vram
     \<in> flat_shaded False False sample_lut sample_cmd 7 7 7 sample_vram"
  using flat_line_color [of "sample_line_vertex 2 0 7" "sample_line_vertex 5 0 255" False False
      sample_lut sample_area sample_cmd sample_vram]
  by (simp add: sample_line_vertex_def LineLength_def word_abs_def word_sle_eq word_sless_alt)

section \<open>Clip confinement\<close>

text \<open>
  Signed readings of the clipping arithmetic. With the drawing area in VRAM coordinates its
  four sides are non-negative as signed numbers, so the signed comparisons of the rasterizers
  agree with the unsigned coordinates of the word written.
\<close>

lemma sint_trunc: "sint (TruncateGPUVertexPosition x) = signed_take_bit 10 (sint x)"
  unfolding TruncateGPUVertexPosition_def
  by transfer (simp add: signed_take_bit_take_bit min_def)

lemma trunc_range:
  "- 1024 \<le> sint (TruncateGPUVertexPosition x)" "sint (TruncateGPUVertexPosition x) < 1024"
  unfolding sint_trunc
  using signed_take_bit_int_greater_eq_minus_exp [of 10 "sint x"]
    signed_take_bit_int_less_exp [of 10 "sint x"] by simp_all


lemma trunc_fixed_range:
  "TruncateGPUVertexPosition x = x \<Longrightarrow> - 1024 \<le> sint x \<and> sint x < 1024"
  using trunc_range [of x] by simp




lemma addr_unat:
  assumes "x < VRAM_WIDTH" "y < VRAM_HEIGHT"
  shows "unat (VRAM_WIDTH * y + x) = 1024 * unat y + unat x"
proof -
  from assms have b: "unat x < 1024" "unat y < 512"
    by (simp_all add: VRAM_WIDTH_def VRAM_HEIGHT_def word_less_nat_alt)
  then have "1024 * unat y + unat x < 2 ^ 32" by simp
  then show ?thesis
    using b by (simp add: VRAM_WIDTH_def unat_word_ariths)
qed

lemma addr_inj:
  assumes "x < VRAM_WIDTH" "y < VRAM_HEIGHT" "x' < VRAM_WIDTH" "y' < VRAM_HEIGHT"
    and "VRAM_WIDTH * y + x = VRAM_WIDTH * y' + x'"
  shows "x = x' \<and> y = y'"
proof -
  from assms(1,3) have b: "unat x < 1024" "unat x' < 1024"
    by (simp_all add: VRAM_WIDTH_def word_less_nat_alt)
  have "1024 * unat y + unat x = 1024 * unat y' + unat x'"
    using addr_unat [OF assms(1,2)] addr_unat [OF assms(3,4)] assms(5) by simp
  then have "(1024 * unat y + unat x) div 1024 = (1024 * unat y' + unat x') div 1024"
    "(1024 * unat y + unat x) mod 1024 = (1024 * unat y' + unat x') mod 1024" by simp_all
  then have "unat x = unat x' \<and> unat y = unat y'" using b by simp
  then show ?thesis by (simp add: word_unat_eq_iff)
qed

lemma addr_bound:
  assumes "x < VRAM_WIDTH" "y < VRAM_HEIGHT"
  shows "VRAM_WIDTH * y + x < VRAM_WIDTH * VRAM_HEIGHT"
proof -
  from assms have b: "unat x < 1024" "unat y < 512"
    by (simp_all add: VRAM_WIDTH_def VRAM_HEIGHT_def word_less_nat_alt)
  then have "1024 * unat y + unat x < 524288" by simp
  then show ?thesis
    unfolding word_less_nat_alt addr_unat [OF assms]
    by (simp add: VRAM_WIDTH_def VRAM_HEIGHT_def)
qed




lemma sint32_1: "sint (1 :: 32 word) = 1" by simp

























text \<open>
  A triangle with vertices outside the signed 11-bit range, at \<open>(0, 2048)\<close>, \<open>(3, 2048)\<close> and
  \<open>(0, 2051)\<close>, flat black and opaque. The row loop clips on the truncated row, which is 0,
  and hands the row 2048 itself to \<open>DrawSpan\<close>.
\<close>

lemma flat_pixel:
  "ShadePixel False False False False sample_lut sample_cmd x y 0 0 0 u v vr
     = vr (VRAM_WIDTH * y + x := 0)"
  by (simp add: ShadePixel_def FlatColor_def sample_lut_def sample_cmd_def SetPixel_def Let_def)













end
